theory Spec2Isabelle
  imports Main "HOL-Library.Word" "HOL-Library.Sublist" "HOL-Library.Char_ord"
    "HOL-Library.List_Lexorder" "HOL-Library.AList"
begin

section \<open>Data model (pkg/agent/types.go)\<close>

text \<open>
  Go's \<open>interface{}\<close> values, as far as the agents look at them: the nil interface, a
  string, an integer, a boolean and a \<open>map[string]interface{}\<close> (an association list;
  a Go map has no duplicate keys and no iteration order, the list fixes one order).
  \<open>VStringMap\<close> is a \<open>map[string]string\<close>, a map of another dynamic type than the one
  the agents assert. \<open>VOther\<close> stands for a value of any other dynamic type and
  carries its \<open>%v\<close> rendering.
\<close>

datatype val =
    VNil
  | VString string
  | VInt int
  | VBool bool
  | VMap "(string \<times> val) list"
  | VStringMap "(string \<times> string) list"
  | VOther string

type_synonym gomap = "(string \<times> val) list"

text \<open>A Go \<open>error\<close> is read through its message only (\<open>err.Error()\<close>, \<open>%v\<close>).\<close>

datatype error = Errorf string

fun ErrorMsg :: "error \<Rightarrow> string" where
  "ErrorMsg (Errorf m) = m"

record FileInput =
  file_Name :: string
  file_Type :: string
  file_Content :: string
  file_URI :: string
  file_Metadata :: val

text \<open>\<open>Temperature\<close> is a float32; the model keeps its 32 bits.\<close>

record ExecutionConfig =
  MaxIterations :: int
  TimeoutSeconds :: int
  Temperature :: "32 word"
  EnablePlan :: bool
  CallbackURL :: string

text \<open>
  \<open>Task\<close>: the time stamps \<open>StartedAt\<close> and \<open>CompletedAt\<close> are wall-clock readings and are
  left out. \<open>State\<close> is a non-nil map, as \<open>Submit\<close> and \<open>ExecuteSync\<close> build it.
\<close>

record Task =
  ID :: string
  Input :: string
  Files :: "FileInput list"
  Params :: gomap
  State :: gomap
  Config :: "ExecutionConfig option"

record TokenUsage =
  PromptTokens :: "64 word"
  CompletionTokens :: "64 word"
  TotalTokens :: "64 word"

record ToolCall =
  tc_ID :: string
  tc_Name :: string
  tc_Arguments :: gomap
  tc_Result :: val
  tc_Error :: "error option"

record Artifact =
  art_Type :: string
  art_MimeType :: string
  art_Content :: val
  art_Metadata :: gomap

text \<open>
  \<open>ExecutionStep\<close> and \<open>Result\<close> without their durations and time stamps
  (\<open>Duration\<close>, \<open>LLMLatency\<close>, \<open>ToolsLatency\<close>, \<open>Timestamp\<close>, \<open>TotalLLMLatency\<close>,
  \<open>TotalToolsLatency\<close>): they are differences of \<open>time.Now()\<close> readings. A nil map is
  \<open>None\<close>.
\<close>

record ExecutionStep =
  AgentName :: string
  Action :: string
  step_Input :: val
  step_Output :: val
  step_Error :: string
  step_TokenUsage :: "TokenUsage option"
  step_ToolCalls :: "ToolCall list"
  StateDelta :: "gomap option"

record Result =
  TaskID :: string
  Success :: bool
  Output :: val
  Artifacts :: "Artifact list"
  Metadata :: "gomap option"
  Error :: string
  Steps :: "ExecutionStep list"
  TotalTokenUsage :: TokenUsage

record ModelResponse =
  resp_Content :: string
  resp_ToolCalls :: "ToolCall list"
  resp_Reasoning :: string
  resp_Finished :: bool
  resp_Usage :: "TokenUsage option"

record Part =
  part_Type :: string
  part_Text :: string
  part_Data :: string

record Message =
  msg_Role :: string
  msg_Content :: string
  msg_Parts :: "Part list"

text \<open>
  The collaborators. A tool and a model provider are supplied from outside the
  repository; what they do to the rest of the world is a state \<open>'w\<close> that every call
  receives and returns. \<open>Tool.Execute\<close> returns a value and an error, both of which may
  be set. \<open>ModelProvider.Complete\<close> returns a response or an error.
\<close>

record 'w Tool =
  ToolName :: string
  ToolDescription :: string
  ToolSchema :: val
  ToolExecute :: "'w \<Rightarrow> gomap \<Rightarrow> (val \<times> error option) \<times> 'w"

type_synonym 'w ModelProvider =
  "'w \<Rightarrow> string \<Rightarrow> FileInput list \<Rightarrow> 'w Tool list \<Rightarrow> Message list
    \<Rightarrow> (error + ModelResponse) \<times> 'w"

text \<open>
  What \<open>Execute(ctx, task)\<close> gives back: the result, the error, and the task and the
  world as the call left them (the task is passed by pointer).
\<close>

type_synonym 'w outcome = "Result \<times> error option \<times> Task \<times> 'w"

text \<open>
  The \<open>Agent\<close> interface as its callers use it: a name and \<open>Execute\<close>. \<open>SubAgents()\<close>
  is introspection that no code of the package calls.
\<close>

record 'w Agent =
  Name :: string
  Execute :: "'w \<Rightarrow> Task \<Rightarrow> 'w outcome"

section \<open>Library functions of Go that the agents call\<close>

text \<open>\<open>strings.Contains\<close>, \<open>strings.HasPrefix\<close>, \<open>strings.HasSuffix\<close>, \<open>strings.Join\<close>.\<close>

fun Contains :: "string \<Rightarrow> string \<Rightarrow> bool" where
  "Contains [] substr = (substr = [])"
| "Contains (c # s) substr = (prefix substr (c # s) \<or> Contains s substr)"

definition HasPrefix :: "string \<Rightarrow> string \<Rightarrow> bool" where
  "HasPrefix s p = prefix p s"

definition HasSuffix :: "string \<Rightarrow> string \<Rightarrow> bool" where
  "HasSuffix s p = prefix (rev p) (rev s)"

fun Join :: "string list \<Rightarrow> string \<Rightarrow> string" where
  "Join [] sep = []"
| "Join [x] sep = x"
| "Join (x # y # ys) sep = x @ sep @ Join (y # ys) sep"

text \<open>
  \<open>strings.ToLower\<close>. On a text of ASCII bytes only, Go lowers the letters \<open>A\<close> to \<open>Z\<close>
  byte by byte and leaves every other byte. On any other text it maps every rune
  through \<open>unicode.ToLower\<close>, whose case tables are not part of the repository: that
  mapping of a whole text is the parameter \<open>lower\<close>, which \<open>ToLower\<close> and every
  definition that lowers a text take as their first argument.
\<close>

definition lower_char :: "char \<Rightarrow> char" where
  "lower_char c =
     (case map_of (zip ''ABCDEFGHIJKLMNOPQRSTUVWXYZ'' ''abcdefghijklmnopqrstuvwxyz'') c of
        None \<Rightarrow> c
      | Some l \<Rightarrow> l)"

definition ToLower :: "(string \<Rightarrow> string) \<Rightarrow> string \<Rightarrow> string" where
  "ToLower lower s = (if list_all (\<lambda>c. \<not> digit7 c) s then map lower_char s else lower s)"

text \<open>
  \<open>strings.ReplaceAll(s, old, new)\<close> for a non-empty \<open>old\<close> (the agent only replaces
  \<open>{key}\<close>, at least two bytes): leftmost non-overlapping occurrences.
\<close>

fun ReplaceAll :: "string \<Rightarrow> string \<Rightarrow> string \<Rightarrow> string" where
  "ReplaceAll [] old new = []"
| "ReplaceAll (c # s) old new =
     (if old \<noteq> [] \<and> prefix old (c # s)
      then new @ ReplaceAll (drop (length old - 1) s) old new
      else c # ReplaceAll s old new)"

text \<open>\<open>fmt.Sprint\<close> of one value, that is \<open>%v\<close>: a map prints its keys sorted.\<close>

fun digits :: "nat \<Rightarrow> string" where
  "digits n =
     (if n < 10 then [''0123456789'' ! n]
      else digits (n div 10) @ [''0123456789'' ! (n mod 10)])"

declare digits.simps [simp del]

definition itoa :: "int \<Rightarrow> string" where
  "itoa i = (if i < 0 then CHR ''-'' # digits (nat (- i)) else digits (nat i))"

fun Sprint :: "val \<Rightarrow> string" where
  "Sprint VNil = ''<nil>''"
| "Sprint (VString s) = s"
| "Sprint (VInt i) = itoa i"
| "Sprint (VBool b) = (if b then ''true'' else ''false'')"
| "Sprint (VMap kvs) =
     ''map['' @ Join (map (\<lambda>(k, v). k @ '':'' @ Sprint v) (sort_key fst kvs)) '' '' @ '']''"
| "Sprint (VStringMap kvs) =
     ''map['' @ Join (map (\<lambda>(k, v). k @ '':'' @ v) (sort_key fst kvs)) '' '' @ '']''"
| "Sprint (VOther s) = s"

section \<open>The reasoning loop (pkg/agent/llm_agent.go)\<close>

text \<open>
  The struct \<open>LLMAgent\<close>, with its sub-agents seen through the \<open>Agent\<close> interface, and
  the configuration \<open>NewLLMAgent\<close> builds it from.
\<close>

record 'w LLMAgent =
  name :: string
  description :: string
  prompt :: string
  model :: "'w ModelProvider"
  tools :: "'w Tool list"
  subAgents :: "'w Agent list"
  maxTurns :: int

record 'w LLMAgentConfig =
  cfg_Name :: string
  cfg_Description :: string
  cfg_Prompt :: string
  cfg_Model :: "'w ModelProvider"
  cfg_Tools :: "'w Tool list"
  cfg_SubAgents :: "'w Agent list"
  cfg_MaxTurns :: int

definition NewLLMAgent :: "'w LLMAgentConfig \<Rightarrow> 'w LLMAgent" where
  "NewLLMAgent cfg =
     (let cfg = (if cfg_MaxTurns cfg = 0 then cfg\<lparr>cfg_MaxTurns := 10\<rparr> else cfg)
      in \<lparr>name = cfg_Name cfg, description = cfg_Description cfg, prompt = cfg_Prompt cfg,
          model = cfg_Model cfg, tools = cfg_Tools cfg, subAgents = cfg_SubAgents cfg,
          maxTurns = cfg_MaxTurns cfg\<rparr>)"

text \<open>\<open>task.State[k] = v\<close> and the loop \<open>for k, v := range m { state[k] = v }\<close>.\<close>

definition gomap_set :: "string \<Rightarrow> val \<Rightarrow> gomap \<Rightarrow> gomap" where
  "gomap_set k v st = AList.update k v st"

definition gomap_merge :: "gomap \<Rightarrow> gomap \<Rightarrow> gomap" where
  "gomap_merge m st = fold (\<lambda>(k, v). gomap_set k v) m st"

definition injectState :: "'w LLMAgent \<Rightarrow> gomap \<Rightarrow> string" where
  "injectState a st =
     fold (\<lambda>(key, v) p. ReplaceAll p (''{'' @ key @ ''}'') (Sprint v)) st (prompt a)"

fun findTool :: "'w Tool list \<Rightarrow> string \<Rightarrow> 'w Tool option" where
  "findTool [] n = None"
| "findTool (t # ts) n = (if ToolName t = n then Some t else findTool ts n)"

definition inferType :: "(string \<Rightarrow> string) \<Rightarrow> string \<Rightarrow> val \<Rightarrow> string" where
  "inferType lower key v =
     (case v of
        VString s \<Rightarrow>
          (if Contains (ToLower lower key) ''image'' then ''image''
           else if Contains (ToLower lower key) ''video'' then ''video''
           else ''text'')
      | _ \<Rightarrow> ''unknown'')"

definition extractArtifacts :: "(string \<Rightarrow> string) \<Rightarrow> gomap \<Rightarrow> Artifact list" where
  "extractArtifacts lower st =
     map (\<lambda>(key, v). \<lparr>art_Type = inferType lower key v, art_MimeType = [], art_Content = v,
                       art_Metadata = [(''key'', VString key)]\<rparr>)
       (filter (\<lambda>(key, v). HasPrefix key ''artifact_'' \<or> HasSuffix key ''_content''
                  \<or> HasSuffix key ''_output'') st)"

definition formatToolCalls :: "ToolCall list \<Rightarrow> string" where
  "formatToolCalls calls =
     Join (map (\<lambda>tc. ''Calling: '' @ tc_Name tc @ ''('' @ Sprint (VMap (tc_Arguments tc)) @ '')'')
             calls) [CHR 0x0A]"

definition formatToolResults :: "ToolCall list \<Rightarrow> string" where
  "formatToolResults calls =
     Join (map (\<lambda>tc. case tc_Error tc of
                        Some e \<Rightarrow> tc_Name tc @ '' failed: '' @ ErrorMsg e
                      | None \<Rightarrow> tc_Name tc @ '' result: '' @ Sprint (tc_Result tc))
             calls) [CHR 0x0A]"

definition add_usage :: "TokenUsage \<Rightarrow> TokenUsage \<Rightarrow> TokenUsage" where
  "add_usage t u =
     \<lparr>PromptTokens = PromptTokens t + PromptTokens u,
      CompletionTokens = CompletionTokens t + CompletionTokens u,
      TotalTokens = TotalTokens t + TotalTokens u\<rparr>"

definition aggregateMetrics :: "Result \<Rightarrow> Result" where
  "aggregateMetrics r =
     fold (\<lambda>step r. case step_TokenUsage step of
                       None \<Rightarrow> r
                     | Some u \<Rightarrow> r\<lparr>TotalTokenUsage := add_usage (TotalTokenUsage r) u\<rparr>)
       (Steps r) r"

text \<open>
  The loop over \<open>resp.ToolCalls\<close> of one turn (lines 119 to 147). It returns the calls
  of the response as the loop leaves them (\<open>tc\<close> points into \<open>resp.ToolCalls\<close>, so
  the result and the error are written there), the calls appended to
  \<open>step.ToolCalls\<close>, the working state and the world. A name that resolves to no
  tool gets its error and the iteration ends at \<open>continue\<close>, before the append.
\<close>

fun run_tool_calls ::
  "'w Tool list \<Rightarrow> ToolCall list \<Rightarrow> ToolCall list \<Rightarrow> gomap \<Rightarrow> 'w
    \<Rightarrow> ToolCall list \<times> ToolCall list \<times> gomap \<times> 'w" where
  "run_tool_calls ts [] stepCalls st w = ([], stepCalls, st, w)"
| "run_tool_calls ts (tc # tcs) stepCalls st w =
     (case findTool ts (tc_Name tc) of
        None \<Rightarrow>
          (let tc1 = tc\<lparr>tc_Error := Some (Errorf (''tool not found: '' @ tc_Name tc))\<rparr>;
               (calls, stepCalls', st', w') = run_tool_calls ts tcs stepCalls st w
           in (tc1 # calls, stepCalls', st', w'))
      | Some tool \<Rightarrow>
          (let ((tcResult, tcErr), w1) = ToolExecute tool w (tc_Arguments tc);
               tc1 = tc\<lparr>tc_Result := tcResult, tc_Error := tcErr\<rparr>;
               st1 = (if tcErr = None \<and> tcResult \<noteq> VNil
                      then (case tcResult of
                              VMap resultMap \<Rightarrow> gomap_merge resultMap st
                            | _ \<Rightarrow> gomap_set (tc_Name tc @ ''_result'') tcResult st)
                      else st);
               (calls, stepCalls', st', w') = run_tool_calls ts tcs (stepCalls @ [tc1]) st1 w1
           in (tc1 # calls, stepCalls', st', w')))"

text \<open>
  One turn of the loop, lines 89 to 203: \<open>Continue\<close> is the \<open>continue\<close> of a tool
  turn with the variables the next turn sees, \<open>Return\<close> is a \<open>return\<close>.
\<close>

datatype 'w turn =
    Continue 'w Task "Message list" Result
  | Return "'w outcome"

definition llm_turn ::
  "(string \<Rightarrow> string) \<Rightarrow> 'w LLMAgent \<Rightarrow> 'w \<Rightarrow> Task \<Rightarrow> Message list \<Rightarrow> Result \<Rightarrow> 'w turn" where
  "llm_turn lower a w task history result =
     (let step = \<lparr>AgentName = name a, Action = [], step_Input = VNil, step_Output = VNil,
                  step_Error = [], step_TokenUsage = None, step_ToolCalls = [],
                  StateDelta = None\<rparr>
      in case model a w (Input task) (Files task) (tools a) history of
           (Inl err, w1) \<Rightarrow>
             (let step = step\<lparr>step_Error := ErrorMsg err\<rparr>;
                  result = result\<lparr>Steps := Steps result @ [step]\<rparr>;
                  result = result\<lparr>Error := ''LLM error: '' @ ErrorMsg err\<rparr>
              in Return (result, Some err, task, w1))
         | (Inr resp, w1) \<Rightarrow>
             (let step = step\<lparr>step_TokenUsage := resp_Usage resp\<rparr>;
                  step = step\<lparr>Action := ''reasoning''\<rparr>;
                  step = step\<lparr>step_Output := VString (resp_Content resp)\<rparr>
              in if resp_ToolCalls resp \<noteq> [] then
                   (let step = step\<lparr>Action := ''tool_execution''\<rparr>;
                        (calls, stepCalls, st, w2) =
                           run_tool_calls (tools a) (resp_ToolCalls resp) [] (State task) w1;
                        step = step\<lparr>step_ToolCalls := stepCalls\<rparr>;
                        history = history @
                          [\<lparr>msg_Role = ''assistant'', msg_Content = formatToolCalls calls,
                            msg_Parts = []\<rparr>];
                        history = history @
                          [\<lparr>msg_Role = ''user'', msg_Content = formatToolResults calls,
                            msg_Parts = []\<rparr>]
                    in Continue w2 (task\<lparr>State := st\<rparr>) history
                         (result\<lparr>Steps := Steps result @ [step]\<rparr>))
                 else
                   (case (if Contains (ToLower lower (resp_Content resp)) ''delegate to''
                          then find (\<lambda>sub. Contains (ToLower lower (resp_Content resp))
                                              (ToLower lower (Name sub))) (subAgents a)
                          else None) of
                      Some sub \<Rightarrow>
                        (let step = step\<lparr>Action := ''delegate''\<rparr>;
                             step = step\<lparr>step_Output := VString (''Delegating to '' @ Name sub)\<rparr>;
                             result = result\<lparr>Steps := Steps result @ [step]\<rparr>
                         in case Execute sub w1 task of
                              (subResult, Some subErr, task', w2) \<Rightarrow>
                                Return (result\<lparr>Error := ''sub-agent failed: '' @ ErrorMsg subErr\<rparr>,
                                        Some subErr, task', w2)
                            | (subResult, None, task', w2) \<Rightarrow>
                                Return (result\<lparr>Steps := Steps result @ Steps subResult,
                                               Output := Output subResult,
                                               Artifacts := Artifacts subResult,
                                               Success := Success subResult\<rparr>,
                                        None, task', w2))
                    | None \<Rightarrow>
                        (let result = result\<lparr>Steps := Steps result @ [step]\<rparr>;
                             result = result\<lparr>Output := VString (resp_Content resp)\<rparr>;
                             result = result\<lparr>Success := True\<rparr>;
                             result = result\<lparr>Artifacts := extractArtifacts lower (State task)\<rparr>
                         in Return (aggregateMetrics result, None, task, w1)))))"

text \<open>The loop \<open>for turn := 0; turn < a.maxTurns; turn++\<close> and what follows it.\<close>

function llm_loop ::
  "(string \<Rightarrow> string) \<Rightarrow> 'w LLMAgent \<Rightarrow> int \<Rightarrow> 'w \<Rightarrow> Task \<Rightarrow> Message list \<Rightarrow> Result \<Rightarrow> 'w outcome" where
  "llm_loop lower a turn w task history result =
     (if turn < maxTurns a then
        (case llm_turn lower a w task history result of
           Continue w' task' history' result' \<Rightarrow> llm_loop lower a (turn + 1) w' task' history' result'
         | Return out \<Rightarrow> out)
      else (result\<lparr>Error := ''max iterations reached''\<rparr>,
            Some (Errorf ''max iterations reached''), task, w))"
  by pat_completeness auto
termination
  by (relation "measure (\<lambda>(lower, a, turn, w, task, history, result). nat (maxTurns a - turn))") auto

declare llm_loop.simps [simp del]

text \<open>
  \<open>Execute\<close>: the result and the conversation history the loop starts from (lines 58
  to 86), then the loop.
\<close>

definition llm_new_result :: "Task \<Rightarrow> Result" where
  "llm_new_result task =
     \<lparr>TaskID = ID task, Success = False, Output = VNil, Artifacts = [],
      Metadata = Some [], Error = [], Steps = [],
      TotalTokenUsage = \<lparr>PromptTokens = 0, CompletionTokens = 0, TotalTokens = 0\<rparr>\<rparr>"

definition initial_history :: "'w LLMAgent \<Rightarrow> Task \<Rightarrow> Message list" where
  "initial_history a task =
     (let systemPrompt = injectState a (State task);
          userMsg = \<lparr>msg_Role = ''user'', msg_Content = Input task,
                     msg_Parts = map (\<lambda>file. \<lparr>part_Type = file_Type file, part_Text = [],
                                                part_Data = file_Content file\<rparr>) (Files task)\<rparr>
      in [\<lparr>msg_Role = ''system'', msg_Content = systemPrompt, msg_Parts = []\<rparr>, userMsg])"

definition LLMAgent_Execute :: "(string \<Rightarrow> string) \<Rightarrow> 'w LLMAgent \<Rightarrow> 'w \<Rightarrow> Task \<Rightarrow> 'w outcome" where
  "LLMAgent_Execute lower a w task =
     llm_loop lower a 0 w task (initial_history a task) (llm_new_result task)"

text \<open>An \<open>*LLMAgent\<close> as a value of the interface \<open>Agent\<close>.\<close>

definition LLMAgent_as_Agent :: "(string \<Rightarrow> string) \<Rightarrow> 'w LLMAgent \<Rightarrow> 'w Agent" where
  "LLMAgent_as_Agent lower a = \<lparr>Name = name a, Execute = LLMAgent_Execute lower a\<rparr>"

section \<open>The composite agents\<close>

text \<open>The \<open>Result\<close> literal that the three composite agents start from.\<close>

definition new_result :: "Task \<Rightarrow> Result" where
  "new_result task =
     \<lparr>TaskID = ID task, Success = False, Output = VNil, Artifacts = [], Metadata = None,
      Error = [], Steps = [],
      TotalTokenUsage = \<lparr>PromptTokens = 0, CompletionTokens = 0, TotalTokens = 0\<rparr>\<rparr>"

subsection \<open>SequentialAgent\<close>

text \<open>The loop over \<open>a.agents\<close>; the empty list is the code after the loop.\<close>

fun seq_loop :: "'w Agent list \<Rightarrow> 'w \<Rightarrow> Task \<Rightarrow> Result \<Rightarrow> 'w outcome" where
  "seq_loop [] w task result = (result\<lparr>Success := True\<rparr>, None, task, w)"
| "seq_loop (ag # ags) w task result =
     (case Execute ag w task of
        (subResult, Some err, task', w') \<Rightarrow>
          (let step = \<lparr>AgentName = Name ag, Action = ''execute'', step_Input = VNil,
                       step_Output = VNil, step_Error = ErrorMsg err, step_TokenUsage = None,
                       step_ToolCalls = [], StateDelta = None\<rparr>;
               result = result\<lparr>Steps := Steps result @ [step]\<rparr>;
               result = result\<lparr>Error := ''agent '' @ Name ag @ '' failed: '' @ ErrorMsg err\<rparr>
           in (result, Some err, task', w'))
      | (subResult, None, task', w') \<Rightarrow>
          seq_loop ags w' task'
            (result\<lparr>Steps := Steps result @ Steps subResult,
                    Output := Output subResult,
                    Artifacts := Artifacts result @ Artifacts subResult\<rparr>))"

definition SequentialAgent_Execute :: "'w Agent list \<Rightarrow> 'w \<Rightarrow> Task \<Rightarrow> 'w outcome" where
  "SequentialAgent_Execute agents w task = seq_loop agents w task (new_result task)"

definition NewSequentialAgent :: "string \<Rightarrow> 'w Agent list \<Rightarrow> 'w Agent" where
  "NewSequentialAgent n agents = \<lparr>Name = n, Execute = SequentialAgent_Execute agents\<rparr>"

subsection \<open>ParallelAgent\<close>

text \<open>
  The goroutines, one per child: each runs its child on a copy of the task with a
  fresh copy of the working state, and stores the result at its index. The children
  run concurrently; the model runs them one after the other in index order, which is
  one of the schedules (the code after \<open>wg.Wait()\<close> is sequential). What a child does
  to its copy of the task is dropped with the copy.
\<close>

fun par_run :: "'w Agent list \<Rightarrow> 'w \<Rightarrow> Task \<Rightarrow> (Result \<times> error option) list \<times> 'w" where
  "par_run [] w task = ([], w)"
| "par_run (ag # ags) w task =
     (let taskCopy = task\<lparr>State := gomap_merge (State task) []\<rparr>;
          (res, err, taskCopy', w1) = Execute ag w taskCopy;
          (results, w') = par_run ags w1 task
      in ((res, err) # results, w'))"

text \<open>The merge loop \<open>for i, res := range results\<close> and the code after it.\<close>

fun par_merge ::
  "('w Agent \<times> Result \<times> error option) list \<Rightarrow> gomap \<Rightarrow> Task \<Rightarrow> Result
    \<Rightarrow> Result \<times> error option \<times> Task" where
  "par_merge [] outputs task result =
     (result\<lparr>Output := VMap outputs, Success := True\<rparr>, None, task)"
| "par_merge ((ag, res, Some err) # rest) outputs task result =
     (result\<lparr>Error := ''agent '' @ Name ag @ '' failed: '' @ ErrorMsg err\<rparr>, Some err, task)"
| "par_merge ((ag, res, None) # rest) outputs task result =
     (let result = result\<lparr>Steps := Steps result @ Steps res\<rparr>;
          result = result\<lparr>Artifacts := Artifacts result @ Artifacts res\<rparr>;
          outputs = gomap_set (Name ag) (Output res) outputs;
          task = (if Steps res \<noteq> []
                  then (case StateDelta (last (Steps res)) of
                          None \<Rightarrow> task
                        | Some delta \<Rightarrow> task\<lparr>State := gomap_merge delta (State task)\<rparr>)
                  else task)
      in par_merge rest outputs task result)"

definition ParallelAgent_Execute :: "'w Agent list \<Rightarrow> 'w \<Rightarrow> Task \<Rightarrow> 'w outcome" where
  "ParallelAgent_Execute agents w task =
     (let (results, w') = par_run agents w task;
          (result, err, task') = par_merge (zip agents results) [] task (new_result task)
      in (result, err, task', w'))"

definition NewParallelAgent :: "string \<Rightarrow> 'w Agent list \<Rightarrow> 'w Agent" where
  "NewParallelAgent n agents = \<lparr>Name = n, Execute = ParallelAgent_Execute agents\<rparr>"

subsection \<open>PipelineAgent\<close>

text \<open>The coercion of a stage's output to the next input text.\<close>

definition coerce_output :: "val \<Rightarrow> string" where
  "coerce_output out = (case out of VString str \<Rightarrow> str | _ \<Rightarrow> Sprint out)"

fun pipe_loop :: "'w Agent list \<Rightarrow> string \<Rightarrow> 'w \<Rightarrow> Task \<Rightarrow> Result \<Rightarrow> 'w outcome" where
  "pipe_loop [] currentInput w task result =
     (result\<lparr>Output := VString currentInput, Success := True\<rparr>, None, task, w)"
| "pipe_loop (stage # stages) currentInput w task result =
     (let task = task\<lparr>Input := currentInput\<rparr>
      in case Execute stage w task of
           (subResult, Some err, task', w') \<Rightarrow>
             (result\<lparr>Error := ''stage '' @ Name stage @ '' failed: '' @ ErrorMsg err\<rparr>,
              Some err, task', w')
         | (subResult, None, task', w') \<Rightarrow>
             pipe_loop stages (coerce_output (Output subResult)) w' task'
               (result\<lparr>Steps := Steps result @ Steps subResult,
                       Artifacts := Artifacts result @ Artifacts subResult\<rparr>))"

definition PipelineAgent_Execute :: "'w Agent list \<Rightarrow> 'w \<Rightarrow> Task \<Rightarrow> 'w outcome" where
  "PipelineAgent_Execute stages w task = pipe_loop stages (Input task) w task (new_result task)"

definition NewPipelineAgent :: "string \<Rightarrow> 'w Agent list \<Rightarrow> 'w Agent" where
  "NewPipelineAgent n stages = \<lparr>Name = n, Execute = PipelineAgent_Execute stages\<rparr>"

subsection \<open>The four agents of the package\<close>

text \<open>
  The values of type \<open>Agent\<close> that the package can build: an \<open>LLMAgent\<close> (the fields of
  the struct), a \<open>SequentialAgent\<close>, a \<open>ParallelAgent\<close> and a \<open>PipelineAgent\<close> (a name and
  the children), each seen through the interface by \<open>as_Agent\<close>.
\<close>

datatype 'w agent =
    LLM string string string "'w ModelProvider" "'w Tool list" "'w agent list" int
  | Sequential string "'w agent list"
  | Parallel string "'w agent list"
  | Pipeline string "'w agent list"

primrec as_Agent :: "(string \<Rightarrow> string) \<Rightarrow> 'w agent \<Rightarrow> 'w Agent" where
  "as_Agent lower (LLM n d p m ts subs mt) =
     LLMAgent_as_Agent lower
       \<lparr>name = n, description = d, prompt = p, model = m, tools = ts,
        subAgents = map (as_Agent lower) subs, maxTurns = mt\<rparr>"
| "as_Agent lower (Sequential n agents) = NewSequentialAgent n (map (as_Agent lower) agents)"
| "as_Agent lower (Parallel n agents) = NewParallelAgent n (map (as_Agent lower) agents)"
| "as_Agent lower (Pipeline n stages) = NewPipelineAgent n (map (as_Agent lower) stages)"

section \<open>The job executor (pkg/agent/state.go)\<close>

datatype JobStatus = JobPending | JobRunning | JobCompleted | JobFailed

record Job =
  job_Task :: Task
  job_Result :: "Result option"
  Status :: JobStatus
  job_Error :: "error option"

text \<open>
  The executor with the \<open>Job\<close> objects it has allocated: \<open>heap\<close> holds them by address,
  \<open>jobs\<close> is the map from task identifier to the address of its job, \<open>jobQueue\<close> is the
  channel of capacity 100 (addresses, oldest first), \<open>sending\<close> holds the jobs of the
  \<open>Submit\<close> calls that have registered their job and have not yet completed the send,
  and \<open>workers\<close> holds for every worker goroutine the job it is executing, if any.
  \<open>world\<close> is the state of the collaborators.
\<close>

record 'w Executor =
  agent :: "'w Agent"
  jobs :: "(string \<times> nat) list"
  heap :: "Job list"
  workerCount :: int
  jobQueue :: "nat list"
  sending :: "nat list"
  workers :: "nat option list"
  world :: 'w

definition NewExecutor :: "'w Agent \<Rightarrow> int \<Rightarrow> 'w \<Rightarrow> 'w Executor" where
  "NewExecutor ag count w =
     (let count = (if count = 0 then 5 else count)
      in \<lparr>agent = ag, jobs = [], heap = [], workerCount = count, jobQueue = [],
          sending = [], workers = replicate (nat count) None, world = w\<rparr>)"

text \<open>
  \<open>Submit\<close> up to the send (lines 125 to 148), with the identifier \<open>uuid.New()\<close> gave:
  the task, its state seeded from the parameters, the pending job, the entry in
  \<open>e.jobs\<close>.
\<close>

definition Submit ::
  "string \<Rightarrow> string \<Rightarrow> gomap \<Rightarrow> ExecutionConfig option \<Rightarrow> 'w Executor \<Rightarrow> 'w Executor" where
  "Submit taskID input params config e =
     (let task = \<lparr>ID = taskID, Input = input, Files = [], Params = params, State = [],
                  Config = config\<rparr>;
          task = task\<lparr>State := gomap_merge params (State task)\<rparr>;
          job = \<lparr>job_Task = task, job_Result = None, Status = JobPending, job_Error = None\<rparr>
      in e\<lparr>jobs := AList.update taskID (length (heap e)) (jobs e),
           heap := heap e @ [job],
           sending := sending e @ [length (heap e)]\<rparr>)"

text \<open>
  \<open>executeJob\<close> in its two critical sections: the first sets the status to running
  (lines 205 to 207), the second follows the call of the agent and sets the final
  status (lines 218 to 231).
\<close>

definition executeJob_start :: "Job \<Rightarrow> Job" where
  "executeJob_start job = job\<lparr>Status := JobRunning\<rparr>"

definition executeJob_finish :: "'w Agent \<Rightarrow> 'w \<Rightarrow> Job \<Rightarrow> Job \<times> 'w" where
  "executeJob_finish ag w job =
     (case Execute ag w (job_Task job) of
        (result, err, task', w') \<Rightarrow>
          (let job = job\<lparr>job_Task := task', job_Result := Some result, job_Error := err\<rparr>;
               job = (if err \<noteq> None then job\<lparr>Status := JobFailed\<rparr>
                      else job\<lparr>Status := JobCompleted\<rparr>)
           in (job, w')))"

text \<open>
  The steps of the executor as a state machine. \<open>EvSubmit\<close> is a call of \<open>Submit\<close> up
  to the send; \<open>EvSend\<close> is the send \<open>e.jobQueue <- job\<close> of a registered job, which
  waits while the channel holds 100 jobs; \<open>EvStart\<close> is a worker that receives the
  oldest job of the channel and enters \<open>executeJob\<close>; \<open>EvFinish\<close> is the rest of
  \<open>executeJob\<close> for the job of that worker. A step that cannot happen in the state is
  \<open>None\<close>.
\<close>

datatype event =
    EvSubmit string string gomap "ExecutionConfig option"
  | EvSend nat
  | EvStart nat
  | EvFinish nat

fun executor_step :: "event \<Rightarrow> 'w Executor \<Rightarrow> 'w Executor option" where
  "executor_step (EvSubmit taskID input params config) e =
     Some (Submit taskID input params config e)"
| "executor_step (EvSend a) e =
     (if a \<in> set (sending e) \<and> length (jobQueue e) < 100
      then Some (e\<lparr>sending := remove1 a (sending e), jobQueue := jobQueue e @ [a]\<rparr>)
      else None)"
| "executor_step (EvStart wid) e =
     (if wid < length (workers e) \<and> workers e ! wid = None \<and> jobQueue e \<noteq> []
      then (let a = hd (jobQueue e)
            in Some (e\<lparr>jobQueue := tl (jobQueue e),
                      workers := (workers e)[wid := Some a],
                      heap := (heap e)[a := executeJob_start (heap e ! a)]\<rparr>))
      else None)"
| "executor_step (EvFinish wid) e =
     (if wid < length (workers e)
      then (case workers e ! wid of
              None \<Rightarrow> None
            | Some a \<Rightarrow>
                (let (job, w') = executeJob_finish (agent e) (world e) (heap e ! a)
                 in Some (e\<lparr>workers := (workers e)[wid := None],
                           heap := (heap e)[a := job],
                           world := w'\<rparr>)))
      else None)"

text \<open>The states the executor reaches from \<open>NewExecutor\<close>.\<close>

inductive reachable :: "'w Executor \<Rightarrow> bool" where
  init: "reachable (NewExecutor ag count w)"
| step: "reachable e \<Longrightarrow> executor_step ev e = Some e' \<Longrightarrow> reachable e'"

text \<open>A run of the executor: the steps of a list of events, one after the other.\<close>

fun run_events :: "event list \<Rightarrow> 'w Executor \<Rightarrow> 'w Executor option" where
  "run_events [] e = Some e"
| "run_events (ev # evs) e =
     (case executor_step ev e of None \<Rightarrow> None | Some e' \<Rightarrow> run_events evs e')"

section \<open>Notions the claims speak of\<close>

text \<open>
  What one step of the executor may do to a job: leave its status, take it from
  pending to running, or take it from running to completed, with no error recorded,
  or to failed, with the error recorded.
\<close>

definition job_transition :: "Job \<Rightarrow> Job \<Rightarrow> bool" where
  "job_transition old new =
     (Status new = Status old
    \<or> Status old = JobPending \<and> Status new = JobRunning
    \<or> Status old = JobRunning \<and> Status new = JobCompleted \<and> job_Error new = None
    \<or> Status old = JobRunning \<and> Status new = JobFailed \<and> job_Error new \<noteq> None)"

text \<open>
  What holds in every state the executor reaches: a job is in at most one place (sent
  but not yet in the channel, in the channel, or with one worker); the jobs not yet
  taken by a worker are pending; the job of a worker is running.
\<close>

definition executor_inv :: "'w Executor \<Rightarrow> bool" where
  "executor_inv e =
     (distinct (sending e @ jobQueue e)
    \<and> (\<forall>a \<in> set (sending e @ jobQueue e).
          a < length (heap e) \<and> Status (heap e ! a) = JobPending)
    \<and> (\<forall>i < length (workers e). \<forall>a. workers e ! i = Some a \<longrightarrow>
          a < length (heap e) \<and> Status (heap e ! a) = JobRunning
        \<and> a \<notin> set (sending e @ jobQueue e)
        \<and> (\<forall>j < length (workers e). j \<noteq> i \<longrightarrow> workers e ! j \<noteq> Some a)))"

text \<open>
  A turn requests tool calls when the model answers, without error, with at least one
  tool call. \<open>only_tool_turns\<close> follows the loop from a turn on and says that every
  turn it runs, up to the budget, requests tool calls.
\<close>

definition requests_tools :: "'w LLMAgent \<Rightarrow> 'w \<Rightarrow> Task \<Rightarrow> Message list \<Rightarrow> bool" where
  "requests_tools a w task history =
     (case model a w (Input task) (Files task) (tools a) history of
        (Inr resp, w1) \<Rightarrow> resp_ToolCalls resp \<noteq> []
      | (Inl err, w1) \<Rightarrow> False)"

function only_tool_turns ::
  "(string \<Rightarrow> string) \<Rightarrow> 'w LLMAgent \<Rightarrow> int \<Rightarrow> 'w \<Rightarrow> Task \<Rightarrow> Message list \<Rightarrow> Result \<Rightarrow> bool" where
  "only_tool_turns lower a turn w task history result =
     (if turn < maxTurns a then
        requests_tools a w task history \<and>
        (case llm_turn lower a w task history result of
           Continue w' task' history' result' \<Rightarrow>
             only_tool_turns lower a (turn + 1) w' task' history' result'
         | Return out \<Rightarrow> False)
      else True)"
  by pat_completeness auto
termination
  by (relation "measure (\<lambda>(lower, a, turn, w, task, history, result). nat (maxTurns a - turn))") auto

declare only_tool_turns.simps [simp del]


text \<open>The entries the merge loop of \<open>ParallelAgent\<close> writes to \<open>outputs\<close>, in order.\<close>

definition child_outputs :: "('w Agent \<times> Result \<times> error option) list \<Rightarrow> gomap" where
  "child_outputs zs = map (\<lambda>(ag, res, err). (Name ag, Output res)) zs"

text \<open>
  The results of the children of a \<open>SequentialAgent\<close> and of the stages of a
  \<open>PipelineAgent\<close> in a run, in the order of their calls: each child is called on the
  task and the world as the one before left them (a stage with the input text set to
  the coerced output of the stage before), and no child is called after one that
  returned an error.
\<close>

fun seq_outcomes :: "'w Agent list \<Rightarrow> 'w \<Rightarrow> Task \<Rightarrow> (Result \<times> error option) list" where
  "seq_outcomes [] w task = []"
| "seq_outcomes (ag # ags) w task =
     (case Execute ag w task of
        (res, Some err, task', w') \<Rightarrow> [(res, Some err)]
      | (res, None, task', w') \<Rightarrow> (res, None) # seq_outcomes ags w' task')"

fun pipe_outcomes ::
  "'w Agent list \<Rightarrow> string \<Rightarrow> 'w \<Rightarrow> Task \<Rightarrow> (Result \<times> error option) list" where
  "pipe_outcomes [] currentInput w task = []"
| "pipe_outcomes (stage # stages) currentInput w task =
     (case Execute stage w (task\<lparr>Input := currentInput\<rparr>) of
        (res, Some err, task', w') \<Rightarrow> [(res, Some err)]
      | (res, None, task', w') \<Rightarrow>
          (res, None) # pipe_outcomes stages (coerce_output (Output res)) w' task')"

text \<open>The step a \<open>SequentialAgent\<close> records for a child that returned an error.\<close>

definition child_failure_step :: "'w Agent \<Rightarrow> error \<Rightarrow> ExecutionStep" where
  "child_failure_step ag err =
     \<lparr>AgentName = Name ag, Action = ''execute'', step_Input = VNil, step_Output = VNil,
      step_Error = ErrorMsg err, step_TokenUsage = None, step_ToolCalls = [],
      StateDelta = None\<rparr>"

text \<open>An agent keeps the input text when no call of it changes \<open>task.Input\<close>.\<close>

definition keeps_Input :: "'w Agent \<Rightarrow> bool" where
  "keeps_Input ag = (\<forall>w task. Input (fst (snd (snd (Execute ag w task)))) = Input task)"

text \<open>The step of a turn whose model call fails, and the step of a delegating turn.\<close>

definition model_error_step :: "'w LLMAgent \<Rightarrow> error \<Rightarrow> ExecutionStep" where
  "model_error_step a err =
     \<lparr>AgentName = name a, Action = [], step_Input = VNil, step_Output = VNil,
      step_Error = ErrorMsg err, step_TokenUsage = None, step_ToolCalls = [],
      StateDelta = None\<rparr>"

definition delegate_step :: "'w LLMAgent \<Rightarrow> ModelResponse \<Rightarrow> 'w Agent \<Rightarrow> ExecutionStep" where
  "delegate_step a resp sub =
     \<lparr>AgentName = name a, Action = ''delegate'', step_Input = VNil,
      step_Output = VString (''Delegating to '' @ Name sub), step_Error = [],
      step_TokenUsage = resp_Usage resp, step_ToolCalls = [], StateDelta = None\<rparr>"

text \<open>
  The states in which the loop of \<open>Execute a w0 task0\<close> stands at its head: the first
  is the one \<open>Execute\<close> builds, and a tool turn leads from one to the next.
\<close>

inductive turn_state ::
  "(string \<Rightarrow> string) \<Rightarrow> 'w LLMAgent \<Rightarrow> 'w \<Rightarrow> Task \<Rightarrow> int \<Rightarrow> 'w \<Rightarrow> Task \<Rightarrow> Message list \<Rightarrow> Result \<Rightarrow> bool"
  for lower :: "string \<Rightarrow> string" and a :: "'w LLMAgent" and w0 :: 'w and task0 :: Task where
  first_turn:
    "turn_state lower a w0 task0 0 w0 task0 (initial_history a task0) (llm_new_result task0)"
| next_turn:
    "turn_state lower a w0 task0 turn w task history result \<Longrightarrow> turn < maxTurns a \<Longrightarrow>
     llm_turn lower a w task history result = Continue w' task' history' result' \<Longrightarrow>
     turn_state lower a w0 task0 (turn + 1) w' task' history' result'"

text \<open>
  What a failing run of the loop leaves in \<open>Steps\<close>, seen from the head of the loop at
  the turn that fails, where \<open>result\<close> holds the steps of the turns before. When the
  budget is used up, nothing is added. When the model call of the turn fails, the
  step with the model's error is added. Otherwise the turn delegated to a sub-agent
  that returned the error: the delegate step is added, and no step of the sub-agent.
\<close>

definition llm_failed_turn ::
  "(string \<Rightarrow> string) \<Rightarrow> 'w LLMAgent \<Rightarrow> int \<Rightarrow> 'w \<Rightarrow> Task \<Rightarrow> Message list \<Rightarrow> Result \<Rightarrow> Result \<Rightarrow> error \<Rightarrow> bool" where
  "llm_failed_turn lower a turn w task history result r err =
     (if turn < maxTurns a then
        (case model a w (Input task) (Files task) (tools a) history of
           (Inl e, w1) \<Rightarrow> e = err \<and> Steps r = Steps result @ [model_error_step a err]
         | (Inr resp, w1) \<Rightarrow>
             resp_ToolCalls resp = []
           \<and> Contains (ToLower lower (resp_Content resp)) ''delegate to''
           \<and> (\<exists>sub subResult task' w'.
                 find (\<lambda>sub. Contains (ToLower lower (resp_Content resp)) (ToLower lower (Name sub)))
                   (subAgents a) = Some sub
               \<and> Execute sub w1 task = (subResult, Some err, task', w')
               \<and> Steps r = Steps result @ [delegate_step a resp sub]))
      else Steps r = Steps result)"

text \<open>
  An agent records no state delta when every step of every result it returns has a
  nil \<open>StateDelta\<close>. An agent does not look at the execution configuration when a
  task with another \<open>Config\<close> gives the same result, error and world, and the same
  task but for that \<open>Config\<close>.
\<close>

definition no_StateDelta :: "'w Agent \<Rightarrow> bool" where
  "no_StateDelta ag =
     (\<forall>w task. \<forall>s \<in> set (Steps (fst (Execute ag w task))). StateDelta s = None)"


section \<open>Collaborators and tasks for the examples\<close>

text \<open>
  Every text of the examples consists of ASCII bytes, for which \<open>ToLower\<close> does not
  consult its parameter. The examples pass \<open>plain\<close>, which leaves a text as it is.
\<close>

definition plain :: "string \<Rightarrow> string" where
  "plain s = s"

text \<open>
  A model provider that reads its answers from a script: the world is the number of
  completion requests made so far, and the \<open>n\<close>-th request gets the \<open>n\<close>-th answer.
\<close>

definition scripted_model :: "(nat \<Rightarrow> error + ModelResponse) \<Rightarrow> nat ModelProvider" where
  "scripted_model script = (\<lambda>w input files ts history. (script w, Suc w))"

definition say :: "string \<Rightarrow> error + ModelResponse" where
  "say text = Inr \<lparr>resp_Content = text, resp_ToolCalls = [], resp_Reasoning = [],
                   resp_Finished = True, resp_Usage = None\<rparr>"

definition call_tools :: "string list \<Rightarrow> error + ModelResponse" where
  "call_tools names =
     Inr \<lparr>resp_Content = [],
          resp_ToolCalls = map (\<lambda>n. \<lparr>tc_ID = [], tc_Name = n, tc_Arguments = [],
                                       tc_Result = VNil, tc_Error = None\<rparr>) names,
          resp_Reasoning = [], resp_Finished = False, resp_Usage = None\<rparr>"

text \<open>The tool of the specification's example: \<open>calculator\<close> returns \<open>{"result": 4}\<close>.\<close>

definition calculator :: "nat Tool" where
  "calculator =
     \<lparr>ToolName = ''calculator'', ToolDescription = [], ToolSchema = VNil,
      ToolExecute = (\<lambda>w args. ((VMap [(''result'', VInt 4)], None), w))\<rparr>"

definition example_task :: "string \<Rightarrow> Task" where
  "example_task input =
     \<lparr>ID = ''t1'', Input = input, Files = [], Params = [], State = [], Config = None\<rparr>"

definition llm_agent ::
  "string \<Rightarrow> (nat \<Rightarrow> error + ModelResponse) \<Rightarrow> nat Tool list \<Rightarrow> nat Agent list \<Rightarrow> int
    \<Rightarrow> nat LLMAgent" where
  "llm_agent n script ts subs turns =
     NewLLMAgent \<lparr>cfg_Name = n, cfg_Description = [], cfg_Prompt = [],
                  cfg_Model = scripted_model script, cfg_Tools = ts, cfg_SubAgents = subs,
                  cfg_MaxTurns = turns\<rparr>"

text \<open>An agent whose model asks for the calculator at every turn, with a budget of two turns.\<close>

definition always_calc :: "nat LLMAgent" where
  "always_calc = llm_agent ''looper'' (\<lambda>n. call_tools [''calculator'']) [calculator] [] 2"

text \<open>The same agent built with a budget of \<open>-1\<close>, which \<open>NewLLMAgent\<close> leaves as it is.\<close>

definition negative_budget :: "nat LLMAgent" where
  "negative_budget =
     llm_agent ''looper'' (\<lambda>n. call_tools [''calculator'']) [calculator] [] (- 1)"

text \<open>
  The example of the specification: the model asks for the calculator, then answers.
  The budget is configured as 0, so \<open>NewLLMAgent\<close> sets it to 10.
\<close>

definition calc_then_answer :: "nat LLMAgent" where
  "calc_then_answer =
     llm_agent ''assistant''
       (\<lambda>n. if n = 0 then call_tools [''calculator''] else say ''The answer is 4'')
       [calculator] [] 0"

definition calc_call :: ToolCall where
  "calc_call = \<lparr>tc_ID = [], tc_Name = ''calculator'', tc_Arguments = [], tc_Result = VNil,
                tc_Error = None\<rparr>"

text \<open>
  A tool that returns the same mapping as a \<open>map[string]string\<close>, and the agent of the
  example with that tool.
\<close>

definition lookup :: "nat Tool" where
  "lookup =
     \<lparr>ToolName = ''lookup'', ToolDescription = [], ToolSchema = VNil,
      ToolExecute = (\<lambda>w args. ((VStringMap [(''result'', ''4'')], None), w))\<rparr>"

definition lookup_then_answer :: "nat LLMAgent" where
  "lookup_then_answer =
     llm_agent ''assistant''
       (\<lambda>n. if n = 0 then call_tools [''lookup''] else say ''The answer is 4'')
       [lookup] [] 0"

text \<open>A model that asks, in one turn, for a tool nobody configured and for the calculator.\<close>

definition missing_then_calc :: "nat LLMAgent" where
  "missing_then_calc =
     llm_agent ''assistant'' (\<lambda>n. call_tools [''missing'', ''calculator'']) [calculator] [] 1"

text \<open>
  A parent whose model delegates to \<open>Helper\<close>; its second child is named \<open>helper\<close>, and
  answers \<open>done\<close> (or fails, when its model fails).
\<close>

definition helper :: "(nat \<Rightarrow> error + ModelResponse) \<Rightarrow> nat Agent" where
  "helper script = LLMAgent_as_Agent plain (llm_agent ''helper'' script [] [] 3)"

definition delegating_parent :: "(nat \<Rightarrow> error + ModelResponse) \<Rightarrow> nat LLMAgent" where
  "delegating_parent script =
     llm_agent ''parent'' (\<lambda>n. say ''Please Delegate To Helper'') []
       [LLMAgent_as_Agent plain (llm_agent ''other'' (\<lambda>n. say ''no'') [] [] 3), helper script] 5"


definition named_worker :: "string \<Rightarrow> nat Agent" where
  "named_worker n = LLMAgent_as_Agent plain (llm_agent n (\<lambda>k. say (''out'' @ digits k)) [] [] 1)"

definition failing_llm :: "string \<Rightarrow> nat LLMAgent" where
  "failing_llm n = llm_agent n (\<lambda>k. Inl (Errorf ''boom'')) [] [] 1"

definition failing_worker :: "string \<Rightarrow> nat Agent" where
  "failing_worker n = LLMAgent_as_Agent plain (failing_llm n)"


definition task_with_x :: Task where
  "task_with_x = \<lparr>ID = ''t2'', Input = ''go'', Files = [], Params = [],
                   State = [(''x'', VInt 1)], Config = None\<rparr>"

text \<open>
  An implementation of the interface \<open>Agent\<close> from outside the package: it returns one
  step, whose \<open>StateDelta\<close> sets \<open>x\<close> to 99. \<open>delegating_child\<close> is an \<open>LLMAgent\<close> that
  has it as its sub-agent and whose model delegates to it.
\<close>

definition delta_agent :: "nat Agent" where
  "delta_agent =
     \<lparr>Name = ''custom'',
      Execute = (\<lambda>w task.
        ((new_result task)
           \<lparr>Success := True,
            Steps := [\<lparr>AgentName = ''custom'', Action = ''execute'', step_Input = VNil,
                       step_Output = VNil, step_Error = [], step_TokenUsage = None,
                       step_ToolCalls = [], StateDelta = Some [(''x'', VInt 99)]\<rparr>]\<rparr>,
         None, task, w))\<rparr>"

definition delegating_child :: "nat LLMAgent" where
  "delegating_child = llm_agent ''child'' (\<lambda>n. say ''delegate to custom'') [] [delta_agent] 3"




text \<open>
  One job through the executor: submitted, sent to the channel, taken by worker 0, and
  finished by it.
\<close>

definition submit_start :: "event list" where
  "submit_start = [EvSubmit ''id1'' ''go'' [] None, EvSend 0, EvStart 0]"

definition one_job :: "event list" where
  "one_job = submit_start @ [EvFinish 0]"

section \<open>Evaluation of the examples\<close>

lemmas example_defs =
  llm_agent_def NewLLMAgent_def scripted_model_def call_tools_def say_def calculator_def
  example_task_def llm_new_result_def new_result_def

lemmas run_defs =
  LLMAgent_Execute_def llm_loop.simps llm_turn_def requests_tools_def only_tool_turns.simps
  gomap_merge_def gomap_set_def Let_def

lemmas agent_defs =
  LLMAgent_as_Agent_def NewSequentialAgent_def NewParallelAgent_def NewPipelineAgent_def
  SequentialAgent_Execute_def ParallelAgent_Execute_def PipelineAgent_Execute_def
  initial_history_def extractArtifacts_def aggregateMetrics_def injectState_def
  coerce_output_def digits.simps

lemmas executor_defs =
  NewExecutor_def Submit_def executeJob_start_def executeJob_finish_def
  submit_start_def one_job_def eval_nat_numeral

section \<open>Working state: lemmas\<close>

lemma map_of_gomap_set: "map_of (gomap_set k v st) = (map_of st)(k \<mapsto> v)"
  by (simp add: gomap_set_def update_conv')

lemma map_of_gomap_merge: "map_of (gomap_merge m st) = map_of st ++ map_of (rev m)"
  unfolding gomap_merge_def
proof (induction m arbitrary: st)
  case Nil
  show ?case by simp
next
  case (Cons kv m)
  obtain k v where kv: "kv = (k, v)" by (cases kv)
  have "map_of (fold (\<lambda>(k, v). gomap_set k v) m (gomap_set k v st))
        = map_of (gomap_set k v st) ++ map_of (rev m)"
    by (rule Cons.IH)
  then show ?case
    by (simp add: kv map_of_gomap_set)
qed

lemma map_of_rev_distinct: "distinct (map fst m) \<Longrightarrow> map_of (rev m) = map_of m"
proof (induction m)
  case Nil
  show ?case by simp
next
  case (Cons kv m)
  obtain k v where kv: "kv = (k, v)" by (cases kv)
  from Cons.prems have "map_of m k = None"
    by (simp add: kv map_of_eq_None_iff)
  with Cons show ?case
    by (auto simp: kv fun_eq_iff map_add_def split: option.splits)
qed

section \<open>The tool calls of a turn: lemmas\<close>

lemma run_tool_calls_append:
  "run_tool_calls ts (xs @ ys) sc st w =
     (case run_tool_calls ts xs sc st w of
        (c1, sc1, st1, w1) \<Rightarrow>
          (case run_tool_calls ts ys sc1 st1 w1 of
             (c2, sc2, st2, w2) \<Rightarrow> (c1 @ c2, sc2, st2, w2)))"
  by (induction xs arbitrary: sc st w) (auto split: prod.splits option.splits simp: Let_def)

lemma findTool_name: "findTool ts n = Some t \<Longrightarrow> ToolName t = n"
  by (induction ts) (auto split: if_splits)

lemma run_tool_calls_single_found:
  assumes "findTool ts (tc_Name tc) = Some tool"
      and "ToolExecute tool w (tc_Arguments tc) = ((res, err), w1)"
  shows "run_tool_calls ts [tc] sc st w =
     ([tc\<lparr>tc_Result := res, tc_Error := err\<rparr>],
      sc @ [tc\<lparr>tc_Result := res, tc_Error := err\<rparr>],
      (if err = None \<and> res \<noteq> VNil
       then (case res of VMap m \<Rightarrow> gomap_merge m st
             | _ \<Rightarrow> gomap_set (tc_Name tc @ ''_result'') res st)
       else st), w1)"
  using assms by (simp add: Let_def)

text \<open>
  What the loop over the calls of a turn leaves: every requested call is still in
  \<open>resp.ToolCalls\<close>, in order; an unresolved one carries its error there; the
  calls appended to the step are the resolved ones.
\<close>

lemma run_tool_calls_calls:
  "run_tool_calls ts tcs sc st w = (calls, sc', st', w') \<Longrightarrow>
     map tc_Name calls = map tc_Name tcs
   \<and> sc' = sc @ filter (\<lambda>tc. findTool ts (tc_Name tc) \<noteq> None) calls
   \<and> (\<forall>tc \<in> set calls. findTool ts (tc_Name tc) = None \<longrightarrow>
         tc_Error tc = Some (Errorf (''tool not found: '' @ tc_Name tc)))"
proof (induction tcs arbitrary: sc st w calls sc' st' w')
  case Nil
  then show ?case by simp
next
  case (Cons tc tcs)
  show ?case
  proof (cases "findTool ts (tc_Name tc)")
    case None
    obtain c1 s1 t1 w1 where r: "run_tool_calls ts tcs sc st w = (c1, s1, t1, w1)"
      by (metis prod_cases4)
    from Cons.prems None r have
      "calls = tc\<lparr>tc_Error := Some (Errorf (''tool not found: '' @ tc_Name tc))\<rparr> # c1"
      and "sc' = s1" by auto
    with Cons.IH[OF r] None show ?thesis by auto
  next
    case (Some tool)
    obtain res err w1 where x: "ToolExecute tool w (tc_Arguments tc) = ((res, err), w1)"
      by (metis prod.collapse)
    define tc1 where "tc1 = tc\<lparr>tc_Result := res, tc_Error := err\<rparr>"
    define st1 where "st1 = (if err = None \<and> res \<noteq> VNil
       then (case res of VMap m \<Rightarrow> gomap_merge m st
             | _ \<Rightarrow> gomap_set (tc_Name tc @ ''_result'') res st)
       else st)"
    obtain c1 s1 t1 w2 where r: "run_tool_calls ts tcs (sc @ [tc1]) st1 w1 = (c1, s1, t1, w2)"
      by (metis prod_cases4)
    from Cons.prems Some x r have "calls = tc1 # c1" and "sc' = s1"
      by (auto simp: tc1_def st1_def Let_def)
    with Cons.IH[OF r] Some show ?thesis by (auto simp: tc1_def)
  qed
qed

section \<open>The reasoning loop: lemmas\<close>

lemma llm_turn_Continue:
  assumes "llm_turn lower a w task history result = Continue w' task' history' result'"
  shows "\<exists>resp w1 calls stepCalls st.
           model a w (Input task) (Files task) (tools a) history = (Inr resp, w1)
         \<and> resp_ToolCalls resp \<noteq> []
         \<and> run_tool_calls (tools a) (resp_ToolCalls resp) [] (State task) w1
             = (calls, stepCalls, st, w')
         \<and> task' = task\<lparr>State := st\<rparr>
         \<and> history' = history @
              [\<lparr>msg_Role = ''assistant'', msg_Content = formatToolCalls calls, msg_Parts = []\<rparr>,
               \<lparr>msg_Role = ''user'', msg_Content = formatToolResults calls, msg_Parts = []\<rparr>]
         \<and> result' = result\<lparr>Steps := Steps result @
              [\<lparr>AgentName = name a, Action = ''tool_execution'', step_Input = VNil,
                step_Output = VString (resp_Content resp), step_Error = [],
                step_TokenUsage = resp_Usage resp, step_ToolCalls = stepCalls,
                StateDelta = None\<rparr>]\<rparr>"
  using assms unfolding llm_turn_def
  by (auto simp: Let_def split: prod.splits sum.splits option.splits if_splits)

lemma exhausted_loop:
  assumes "only_tool_turns lower a turn w task history result"
      and "llm_loop lower a turn w task history result = (r, err, task', w')"
  shows "Error r = ''max iterations reached'' \<and> err = Some (Errorf ''max iterations reached'')
       \<and> Success r = Success result
       \<and> length (Steps r) = length (Steps result) + nat (maxTurns a - turn)"
  using assms
proof (induction lower a turn w task history result rule: llm_loop.induct)
  case (1 lower a turn w task history result)
  show ?case
  proof (cases "turn < maxTurns a")
    case False
    with "1.prems"(2) show ?thesis by (auto simp: llm_loop.simps)
  next
    case True
    from "1.prems"(1) True obtain w1 t1 h1 r1 where
      c: "llm_turn lower a w task history result = Continue w1 t1 h1 r1"
      and o: "only_tool_turns lower a (turn + 1) w1 t1 h1 r1"
      by (subst (asm) only_tool_turns.simps) (auto split: turn.splits)
    from "1.prems"(2) True c have l: "llm_loop lower a (turn + 1) w1 t1 h1 r1 = (r, err, task', w')"
      by (subst (asm) llm_loop.simps) simp
    from llm_turn_Continue[OF c] have "length (Steps r1) = length (Steps result) + 1"
      and "Success r1 = Success result" by auto
    with "1.IH"[OF True c o l] True show ?thesis by auto
  qed
qed

lemma loop_from_turn_state:
  "turn_state lower a w0 task0 turn w task history result \<Longrightarrow>
   llm_loop lower a turn w task history result = LLMAgent_Execute lower a w0 task0"
proof (induction rule: turn_state.induct)
  case first_turn
  show ?case by (simp add: LLMAgent_Execute_def)
next
  case (next_turn turn w task history result w' task' history' result')
  from next_turn.hyps(2,3) next_turn.IH show ?case
    by (subst (asm) llm_loop.simps) simp
qed

text \<open>
  At the head of the loop the result is still the failed one without an error text,
  and it holds one step for each turn that has run.
\<close>

lemma turn_state_inv:
  "turn_state lower a w0 task0 turn w task history result \<Longrightarrow>
   \<not> Success result \<and> Error result = [] \<and> int (length (Steps result)) = turn"
proof (induction rule: turn_state.induct)
  case first_turn
  show ?case by (simp add: llm_new_result_def)
next
  case (next_turn turn w task history result w' task' history' result')
  from llm_turn_Continue[OF next_turn.hyps(3)] next_turn.IH show ?case by auto
qed

lemma find_first:
  assumes "i < length xs" and "P (xs ! i)" and "\<forall>j<i. \<not> P (xs ! j)"
  shows "find P xs = Some (xs ! i)"
  using assms by (auto simp: find_Some_iff)

lemma llm_turn_delegate:
  assumes "model a w (Input task) (Files task) (tools a) history = (Inr resp, w1)"
      and "resp_ToolCalls resp = []"
      and "Contains (ToLower lower (resp_Content resp)) ''delegate to''"
      and "find (\<lambda>sub. Contains (ToLower lower (resp_Content resp)) (ToLower lower (Name sub)))
             (subAgents a) = Some sub"
      and "Execute sub w1 task = (subResult, subErr, task', w2)"
  shows "llm_turn lower a w task history result =
     Return (case subErr of
        None \<Rightarrow>
          (result\<lparr>Steps := Steps result @ [delegate_step a resp sub] @ Steps subResult,
                  Output := Output subResult, Artifacts := Artifacts subResult,
                  Success := Success subResult\<rparr>, None, task', w2)
      | Some e \<Rightarrow>
          (result\<lparr>Steps := Steps result @ [delegate_step a resp sub],
                  Error := ''sub-agent failed: '' @ ErrorMsg e\<rparr>, Some e, task', w2))"
  using assms unfolding llm_turn_def delegate_step_def
  by (simp add: Let_def split: option.splits)

lemma aggregateMetrics_usage_only:
  "\<exists>u. aggregateMetrics r = r\<lparr>TotalTokenUsage := u\<rparr>"
proof -
  have "\<exists>u. fold (\<lambda>step r. case step_TokenUsage step of
                       None \<Rightarrow> r
                     | Some u \<Rightarrow> r\<lparr>TotalTokenUsage := add_usage (TotalTokenUsage r) u\<rparr>) xs r
            = r\<lparr>TotalTokenUsage := u\<rparr>" for xs
  proof (induction xs arbitrary: r)
    case Nil
    have "r = r\<lparr>TotalTokenUsage := TotalTokenUsage r\<rparr>" by simp
    then show ?case by (metis fold_simps(1))
  next
    case (Cons x xs)
    show ?case
    proof (cases "step_TokenUsage x")
      case None
      with Cons show ?thesis by simp
    next
      case (Some u)
      from Cons[of "r\<lparr>TotalTokenUsage := add_usage (TotalTokenUsage r) u\<rparr>"] Some
      show ?thesis by auto
    qed
  qed
  then show ?thesis unfolding aggregateMetrics_def by blast
qed

lemma aggregateMetrics_fields [simp]:
  "Steps (aggregateMetrics r) = Steps r" "Success (aggregateMetrics r) = Success r"
  "Output (aggregateMetrics r) = Output r" "Artifacts (aggregateMetrics r) = Artifacts r"
  "Error (aggregateMetrics r) = Error r" "TaskID (aggregateMetrics r) = TaskID r"
  "Metadata (aggregateMetrics r) = Metadata r"
  using aggregateMetrics_usage_only[of r] by auto

lemma llm_turn_Return_cases:
  assumes "llm_turn lower a w task history result = Return (r, e, task', w')"
  obtains
    (model_error) err where
      "model a w (Input task) (Files task) (tools a) history = (Inl err, w')"
      "e = Some err" "task' = task"
      "r = result\<lparr>Steps := Steps result @ [model_error_step a err],
                  Error := ''LLM error: '' @ ErrorMsg err\<rparr>"
  | (delegated) resp w1 sub subResult where
      "model a w (Input task) (Files task) (tools a) history = (Inr resp, w1)"
      "resp_ToolCalls resp = []"
      "Contains (ToLower lower (resp_Content resp)) ''delegate to''"
      "find (\<lambda>sub. Contains (ToLower lower (resp_Content resp)) (ToLower lower (Name sub)))
         (subAgents a) = Some sub"
      "Execute sub w1 task = (subResult, e, task', w')"
      "r = (case e of
              None \<Rightarrow> result\<lparr>Steps := Steps result @ [delegate_step a resp sub] @ Steps subResult,
                           Output := Output subResult, Artifacts := Artifacts subResult,
                           Success := Success subResult\<rparr>
            | Some err \<Rightarrow> result\<lparr>Steps := Steps result @ [delegate_step a resp sub],
                           Error := ''sub-agent failed: '' @ ErrorMsg err\<rparr>)"
  | (completed) resp where
      "model a w (Input task) (Files task) (tools a) history = (Inr resp, w')"
      "resp_ToolCalls resp = []"
      "e = None" "task' = task"
      "r = aggregateMetrics
             (result\<lparr>Steps := Steps result @
                       [\<lparr>AgentName = name a, Action = ''reasoning'', step_Input = VNil,
                         step_Output = VString (resp_Content resp), step_Error = [],
                         step_TokenUsage = resp_Usage resp, step_ToolCalls = [],
                         StateDelta = None\<rparr>],
                     Output := VString (resp_Content resp), Success := True,
                     Artifacts := extractArtifacts lower (State task)\<rparr>)"
proof -
  obtain x w1 where m: "model a w (Input task) (Files task) (tools a) history = (x, w1)"
    by fastforce
  show ?thesis
  proof (cases x)
    case (Inl err)
    with assms m show ?thesis
      by (intro model_error[of err]) (auto simp: llm_turn_def model_error_step_def Let_def)
  next
    case (Inr resp)
    show ?thesis
    proof (cases "resp_ToolCalls resp = []")
      case False
      with assms m Inr show ?thesis
        by (auto simp: llm_turn_def Let_def split: prod.splits)
    next
      case True
      show ?thesis
      proof (cases "if Contains (ToLower lower (resp_Content resp)) ''delegate to''
                    then find (\<lambda>sub. Contains (ToLower lower (resp_Content resp)) (ToLower lower (Name sub)))
                           (subAgents a)
                    else None")
        case None
        with assms m Inr True show ?thesis
          by (intro completed[of resp]) (auto simp: llm_turn_def Let_def)
      next
        case (Some sub)
        then have c: "Contains (ToLower lower (resp_Content resp)) ''delegate to''"
          and f: "find (\<lambda>sub. Contains (ToLower lower (resp_Content resp)) (ToLower lower (Name sub)))
                    (subAgents a) = Some sub"
          by (auto split: if_splits)
        obtain subResult subErr t2 w2 where x: "Execute sub w1 task = (subResult, subErr, t2, w2)"
          by (metis prod_cases4)
        from assms[unfolded llm_turn_delegate[OF m[unfolded Inr] True c f x]]
        show ?thesis
          using m Inr True c f x
          by (intro delegated[of resp w1 sub subResult]) (auto split: option.splits)
      qed
    qed
  qed
qed

lemma llm_loop_Input:
  assumes "\<forall>sub \<in> set (subAgents a). keeps_Input sub"
      and "llm_loop lower a turn w task history result = (r, e, task', w')"
  shows "Input task' = Input task"
  using assms
proof (induction lower a turn w task history result rule: llm_loop.induct)
  case (1 lower a turn w task history result)
  show ?case
  proof (cases "turn < maxTurns a")
    case False
    with "1.prems" show ?thesis by (simp add: llm_loop.simps)
  next
    case True
    show ?thesis
    proof (cases "llm_turn lower a w task history result")
      case (Continue w1 t1 h1 r1)
      from "1.prems" True Continue have "llm_loop lower a (turn + 1) w1 t1 h1 r1 = (r, e, task', w')"
        by (subst (asm) llm_loop.simps) simp
      from "1.IH"[OF True Continue "1.prems"(1) this] llm_turn_Continue[OF Continue]
      show ?thesis by auto
    next
      case (Return out)
      from "1.prems"(2) True Return have "out = (r, e, task', w')"
        by (subst (asm) llm_loop.simps) simp
      with Return have t: "llm_turn lower a w task history result = Return (r, e, task', w')"
        by simp
      then show ?thesis
      proof (cases rule: llm_turn_Return_cases)
        case (delegated resp w1 sub subResult)
        from delegated(4) have "sub \<in> set (subAgents a)"
          by (auto simp: find_Some_iff)
        with "1.prems"(1) have "keeps_Input sub" by blast
        then have "Input (fst (snd (snd (Execute sub w1 task)))) = Input task"
          unfolding keeps_Input_def by blast
        with delegated(5) show ?thesis by simp
      qed simp_all
    qed
  qed
qed

lemma LLMAgent_keeps_Input:
  "\<forall>sub \<in> set (subAgents a). keeps_Input sub \<Longrightarrow> keeps_Input (LLMAgent_as_Agent lower a)"
proof -
  assume s: "\<forall>sub \<in> set (subAgents a). keeps_Input sub"
  have "Input (fst (snd (snd (LLMAgent_Execute lower a w task)))) = Input task" for w task
  proof -
    obtain r e t w' where x: "LLMAgent_Execute lower a w task = (r, e, t, w')" by (metis prod_cases4)
    from llm_loop_Input[OF s x[unfolded LLMAgent_Execute_def]] x show ?thesis by simp
  qed
  then show ?thesis by (simp add: keeps_Input_def LLMAgent_as_Agent_def)
qed

lemma llm_failure:
  assumes "turn_state lower a w0 task0 turn w task history result"
      and "llm_loop lower a turn w task history result = (r, Some err, task', w')"
  shows "\<exists>turn w task history result.
           turn_state lower a w0 task0 turn w task history result
         \<and> llm_failed_turn lower a turn w task history result r err"
  using assms
proof (induction lower a turn w task history result rule: llm_loop.induct)
  case (1 lower a turn w task history result)
  show ?case
  proof (cases "turn < maxTurns a")
    case False
    with "1.prems"(2) have "Steps r = Steps result" by (auto simp: llm_loop.simps)
    with False have "llm_failed_turn lower a turn w task history result r err"
      by (simp add: llm_failed_turn_def)
    with "1.prems"(1) show ?thesis by blast
  next
    case True
    show ?thesis
    proof (cases "llm_turn lower a w task history result")
      case (Continue w1 t1 h1 r1)
      from "1.prems"(2) True Continue
      have l: "llm_loop lower a (turn + 1) w1 t1 h1 r1 = (r, Some err, task', w')"
        by (subst (asm) llm_loop.simps) simp
      have s: "turn_state lower a w0 task0 (turn + 1) w1 t1 h1 r1"
        using "1.prems"(1) True Continue by (rule turn_state.next_turn)
      from "1.IH"[OF True Continue s l] show ?thesis .
    next
      case (Return out)
      from "1.prems"(2) True Return have "out = (r, Some err, task', w')"
        by (subst (asm) llm_loop.simps) simp
      with Return have t: "llm_turn lower a w task history result = Return (r, Some err, task', w')"
        by simp
      then have "llm_failed_turn lower a turn w task history result r err"
      proof (cases rule: llm_turn_Return_cases)
        case (model_error e)
        with True show ?thesis by (simp add: llm_failed_turn_def)
      next
        case (delegated resp w1 sub subResult)
        with True show ?thesis by (auto simp: llm_failed_turn_def)
      next
        case (completed resp)
        then show ?thesis by simp
      qed
      with "1.prems"(1) show ?thesis by blast
    qed
  qed
qed

text \<open>An agent whose model always requests tool calls has only tool turns.\<close>

lemma requests_tools_Continue:
  assumes "requests_tools a w task history"
  shows "\<exists>w' task' history' result'.
           llm_turn lower a w task history result = Continue w' task' history' result'"
  using assms unfolding requests_tools_def llm_turn_def
  by (auto simp: Let_def split: prod.splits sum.splits)


text \<open>
  The steps of a run are the steps of the turns of the loop, at most one for each turn
  of the budget and each built by the loop with a nil \<open>StateDelta\<close>, followed by
  nothing or by the steps of the one sub-agent the last turn delegated to.
\<close>

lemma llm_loop_own_steps:
  assumes "llm_loop lower a turn w task history result = (r, e, task', w')"
  shows "\<exists>own rest. Steps r = Steps result @ own @ rest
         \<and> int (length own) \<le> max 0 (maxTurns a - turn)
         \<and> (\<forall>s \<in> set own. AgentName s = name a \<and> StateDelta s = None)
         \<and> (rest = [] \<or> (\<exists>sub \<in> set (subAgents a). \<exists>w1 t1.
                rest = Steps (fst (Execute sub w1 t1))))"
  using assms
proof (induction lower a turn w task history result rule: llm_loop.induct)
  case (1 lower a turn w task history result)
  let ?P = "\<lambda>own rest. Steps r = Steps result @ own @ rest
         \<and> int (length own) \<le> max 0 (maxTurns a - turn)
         \<and> (\<forall>s \<in> set own. AgentName s = name a \<and> StateDelta s = None)
         \<and> (rest = [] \<or> (\<exists>sub \<in> set (subAgents a). \<exists>w1 t1.
                rest = Steps (fst (Execute sub w1 t1))))"
  show ?case
  proof (cases "turn < maxTurns a")
    case False
    with "1.prems" have "Steps r = Steps result" by (auto simp: llm_loop.simps)
    then have "?P [] []" by simp
    then show ?thesis by blast
  next
    case True
    show ?thesis
    proof (cases "llm_turn lower a w task history result")
      case (Continue w1 t1 h1 r1)
      from "1.prems" True Continue
      have l: "llm_loop lower a (turn + 1) w1 t1 h1 r1 = (r, e, task', w')"
        by (subst (asm) llm_loop.simps) simp
      from llm_turn_Continue[OF Continue] obtain step where
        s: "Steps r1 = Steps result @ [step]" "AgentName step = name a" "StateDelta step = None"
        by auto
      from "1.IH"[OF True Continue l] obtain own rest where
        o: "Steps r = Steps r1 @ own @ rest"
           "int (length own) \<le> max 0 (maxTurns a - (turn + 1))"
           "\<forall>s \<in> set own. AgentName s = name a \<and> StateDelta s = None"
           "rest = [] \<or> (\<exists>sub \<in> set (subAgents a). \<exists>w1 t1.
                rest = Steps (fst (Execute sub w1 t1)))"
        by blast
      from s o True have "?P (step # own) rest" by auto
      then show ?thesis by blast
    next
      case (Return out)
      from "1.prems" True Return have "out = (r, e, task', w')"
        by (subst (asm) llm_loop.simps) simp
      with Return have "llm_turn lower a w task history result = Return (r, e, task', w')"
        by simp
      then show ?thesis
      proof (cases rule: llm_turn_Return_cases)
        case (model_error err)
        with True have "?P [model_error_step a err] []"
          by (simp add: model_error_step_def)
        then show ?thesis by blast
      next
        case (delegated resp w1 sub subResult)
        from delegated(4) have m: "sub \<in> set (subAgents a)" by (auto simp: find_Some_iff)
        from delegated(5) have sr: "Steps subResult = Steps (fst (Execute sub w1 task))" by simp
        show ?thesis
        proof (cases e)
          case None
          with delegated(6) True m sr have "?P [delegate_step a resp sub] (Steps subResult)"
            by (auto simp: delegate_step_def)
          then show ?thesis by blast
        next
          case (Some err)
          with delegated(6) True have "?P [delegate_step a resp sub] []"
            by (simp add: delegate_step_def)
          then show ?thesis by blast
        qed
      next
        case (completed resp)
        with True have "?P [\<lparr>AgentName = name a, Action = ''reasoning'', step_Input = VNil,
                         step_Output = VString (resp_Content resp), step_Error = [],
                         step_TokenUsage = resp_Usage resp, step_ToolCalls = [],
                         StateDelta = None\<rparr>] []" by simp
        then show ?thesis by blast
      qed
    qed
  qed
qed

section \<open>ParallelAgent: lemmas\<close>


lemma length_par_run: "par_run agents w task = (results, w') \<Longrightarrow> length results = length agents"
  by (induction agents arbitrary: w results w') (auto simp: Let_def split: prod.splits)




lemma par_merge_success:
  assumes "\<forall>z \<in> set zs. snd (snd z) = None"
      and "par_merge zs outputs task result = (r, e, t)"
  shows "e = None
       \<and> r = result\<lparr>Steps := Steps result @ concat (map (\<lambda>(ag, res, err). Steps res) zs),
             Artifacts := Artifacts result @ concat (map (\<lambda>(ag, res, err). Artifacts res) zs),
             Output := VMap (fold (\<lambda>(k, v). gomap_set k v) (child_outputs zs) outputs),
             Success := True\<rparr>"
  using assms
proof (induction zs arbitrary: outputs task result)
  case Nil
  then show ?case by (auto simp: child_outputs_def)
next
  case (Cons z zs)
  obtain ag res where z: "z = (ag, res, None)" using Cons.prems(1) by (cases z) auto
  from Cons.prems(1) have a: "\<forall>z \<in> set zs. snd (snd z) = None" by simp
  from Cons.prems(2) show ?case
    unfolding z par_merge.simps Let_def
    by (drule_tac Cons.IH[OF a]) (simp add: child_outputs_def)
qed

lemma par_merge_failure:
  assumes "\<forall>z \<in> set pre. snd (snd z) = None"
      and "par_merge (pre @ (ag, res, Some err) # post) outputs task result = (r, e, t)"
  shows "e = Some err
       \<and> r = result\<lparr>Steps := Steps result @ concat (map (\<lambda>(ag, res, err). Steps res) pre),
             Artifacts := Artifacts result @ concat (map (\<lambda>(ag, res, err). Artifacts res) pre),
             Error := ''agent '' @ Name ag @ '' failed: '' @ ErrorMsg err\<rparr>"
  using assms
proof (induction pre arbitrary: outputs task result)
  case Nil
  then show ?case by auto
next
  case (Cons z zs)
  obtain ag' res' where z: "z = (ag', res', None)" using Cons.prems(1) by (cases z) auto
  from Cons.prems(1) have a: "\<forall>z \<in> set zs. snd (snd z) = None" by simp
  from Cons.prems(2) show ?case
    unfolding z append_Cons par_merge.simps Let_def
    by (drule_tac Cons.IH[OF a]) simp
qed

lemma par_merge_task:
  assumes "\<forall>z \<in> set zs. \<forall>s \<in> set (Steps (fst (snd z))). StateDelta s = None"
      and "par_merge zs outputs task result = (r, e, t)"
  shows "t = task"
  using assms
proof (induction zs arbitrary: outputs task result)
  case Nil
  then show ?case by auto
next
  case (Cons z zs)
  obtain ag res err where z: "z = (ag, res, err)" by (cases z) auto
  from Cons.prems(1) have a: "\<forall>z \<in> set zs. \<forall>s \<in> set (Steps (fst (snd z))). StateDelta s = None"
    by simp
  show ?case
  proof (cases err)
    case None
    from Cons.prems(1) have "Steps res \<noteq> [] \<Longrightarrow> StateDelta (last (Steps res)) = None"
      by (simp add: z)
    with Cons.prems(2) show ?thesis
      unfolding z None par_merge.simps Let_def
      by (auto dest!: Cons.IH[OF a] split: if_splits)
  next
    case (Some e)
    with Cons.prems(2) show ?thesis by (simp add: z)
  qed
qed



lemma zip_steps:
  "length agents = length results \<Longrightarrow>
   map (\<lambda>(ag, res, err). f res) (zip agents results) = map (f \<circ> fst) results"
  by (induction agents results rule: list_induct2) auto

lemma parallel_success:
  assumes "par_run agents w task = (results, w1)"
      and "ParallelAgent_Execute agents w task = (r, e, task', w')"
      and "\<forall>res \<in> set results. snd res = None"
  shows "e = None \<and> Success r \<and> w' = w1
       \<and> Steps r = concat (map (Steps \<circ> fst) results)
       \<and> Artifacts r = concat (map (Artifacts \<circ> fst) results)
       \<and> Output r = VMap (fold (\<lambda>(k, v). gomap_set k v)
                           (child_outputs (zip agents results)) [])"
proof -
  have len: "length agents = length results"
    using length_par_run[OF assms(1)] by simp
  obtain t where m: "par_merge (zip agents results) [] task (new_result task) = (r, e, t)"
    using assms(2) by (auto simp: ParallelAgent_Execute_def assms(1) split: prod.splits)
  have a: "\<forall>z \<in> set (zip agents results). snd (snd z) = None"
    using assms(3) by (auto dest!: set_zip_rightD)
  from par_merge_success[OF a m] assms(2) show ?thesis
    by (auto simp: zip_steps[OF len] new_result_def ParallelAgent_Execute_def assms(1)
          split: prod.splits)
qed

lemma parallel_failure:
  assumes "par_run agents w task = (results, w1)"
      and "ParallelAgent_Execute agents w task = (r, e, task', w')"
      and "\<not> (\<forall>res \<in> set results. snd res = None)"
  shows "\<exists>k err. k < length agents \<and> (\<forall>j<k. snd (results ! j) = None)
           \<and> snd (results ! k) = Some err \<and> e = Some err \<and> \<not> Success r
           \<and> Error r = ''agent '' @ Name (agents ! k) @ '' failed: '' @ ErrorMsg err
           \<and> Steps r = concat (map (Steps \<circ> fst) (take k results))
           \<and> Artifacts r = concat (map (Artifacts \<circ> fst) (take k results))"
proof -
  have len: "length agents = length results"
    using length_par_run[OF assms(1)] by simp
  obtain t where m: "par_merge (zip agents results) [] task (new_result task) = (r, e, t)"
    using assms(2) by (auto simp: ParallelAgent_Execute_def assms(1) split: prod.splits)
  from assms(3) obtain pre x post where
    sp: "results = pre @ x # post" and x: "snd x \<noteq> None" and pre: "\<forall>y \<in> set pre. snd y = None"
    using split_list_first_prop[of results "\<lambda>res. snd res \<noteq> None"] by auto
  obtain res err where xe: "x = (res, Some err)" using x by (cases x) auto
  define k where "k = length pre"
  have k: "k < length agents" using len sp by (simp add: k_def)
  have ag: "agents = take k agents @ agents ! k # drop (Suc k) agents"
    using k by (simp add: id_take_nth_drop)
  have z: "zip agents results =
             zip (take k agents) pre @ (agents ! k, res, Some err) # zip (drop (Suc k) agents) post"
    by (subst ag) (simp add: sp xe k_def zip_append k[unfolded k_def, THEN less_imp_le])
  have a: "\<forall>z \<in> set (zip (take k agents) pre). snd (snd z) = None"
    using pre by (auto dest!: set_zip_rightD)
  have lk: "length (take k agents) = length pre" using k by (simp add: k_def)
  have tk: "take k results = pre" by (simp add: sp k_def)
  from par_merge_failure[OF a m[unfolded z]]
  have "e = Some err"
    and "Error r = ''agent '' @ Name (agents ! k) @ '' failed: '' @ ErrorMsg err"
    and "\<not> Success r"
    and "Steps r = concat (map (Steps \<circ> fst) (take k results))"
    and "Artifacts r = concat (map (Artifacts \<circ> fst) (take k results))"
    by (simp_all add: zip_steps[OF lk] tk new_result_def)
  moreover have "\<forall>j<k. snd (results ! j) = None"
    using pre by (auto simp: sp k_def nth_append)
  moreover have "snd (results ! k) = Some err" by (simp add: sp k_def xe)
  ultimately show ?thesis using k by blast
qed



section \<open>SequentialAgent and PipelineAgent: lemmas\<close>


lemma seq_loop_outcomes:
  assumes "seq_loop agents w task result = (r, e, task', w')"
  shows "(case e of
            None \<Rightarrow>
              length (seq_outcomes agents w task) = length agents
            \<and> (\<forall>out \<in> set (seq_outcomes agents w task). snd out = None)
            \<and> Steps r = Steps result @ concat (map (Steps \<circ> fst) (seq_outcomes agents w task))
            \<and> Success r
          | Some err \<Rightarrow>
              seq_outcomes agents w task \<noteq> []
            \<and> length (seq_outcomes agents w task) \<le> length agents
            \<and> snd (last (seq_outcomes agents w task)) = Some err
            \<and> (\<forall>out \<in> set (butlast (seq_outcomes agents w task)). snd out = None)
            \<and> Steps r = Steps result
                @ concat (map (Steps \<circ> fst) (butlast (seq_outcomes agents w task)))
                @ [child_failure_step (agents ! (length (seq_outcomes agents w task) - 1)) err]
            \<and> Success r = Success result
            \<and> Error r = ''agent '' @ Name (agents ! (length (seq_outcomes agents w task) - 1))
                  @ '' failed: '' @ ErrorMsg err)"
  using assms
proof (induction agents arbitrary: w task result)
  case Nil
  then show ?case by auto
next
  case (Cons ag ags)
  obtain res er t1 w1 where x: "Execute ag w task = (res, er, t1, w1)" by (metis prod_cases4)
  show ?case
  proof (cases er)
    case (Some err)
    with Cons.prems x show ?thesis by (auto simp: child_failure_step_def)
  next
    case None
    define r1 where "r1 = result\<lparr>Steps := Steps result @ Steps res, Output := Output res,
                    Artifacts := Artifacts result @ Artifacts res\<rparr>"
    from Cons.prems x None have l: "seq_loop ags w1 t1 r1 = (r, e, task', w')"
      by (simp add: r1_def)
    have o: "seq_outcomes (ag # ags) w task = (res, None) # seq_outcomes ags w1 t1"
      using x None by simp
    from Cons.IH[OF l] show ?thesis
      unfolding o by (cases e) (auto simp: r1_def nth_Cons split: nat.splits)
  qed
qed

lemma pipe_loop_outcomes:
  assumes "pipe_loop stages cur w task result = (r, e, task', w')"
  shows "(case e of
            None \<Rightarrow>
              length (pipe_outcomes stages cur w task) = length stages
            \<and> (\<forall>out \<in> set (pipe_outcomes stages cur w task). snd out = None)
            \<and> Steps r = Steps result @ concat (map (Steps \<circ> fst) (pipe_outcomes stages cur w task))
            \<and> Success r
          | Some err \<Rightarrow>
              pipe_outcomes stages cur w task \<noteq> []
            \<and> length (pipe_outcomes stages cur w task) \<le> length stages
            \<and> snd (last (pipe_outcomes stages cur w task)) = Some err
            \<and> (\<forall>out \<in> set (butlast (pipe_outcomes stages cur w task)). snd out = None)
            \<and> Steps r = Steps result
                @ concat (map (Steps \<circ> fst) (butlast (pipe_outcomes stages cur w task)))
            \<and> Success r = Success result
            \<and> Error r = ''stage '' @ Name (stages ! (length (pipe_outcomes stages cur w task) - 1))
                  @ '' failed: '' @ ErrorMsg err)"
  using assms
proof (induction stages arbitrary: cur w task result)
  case Nil
  then show ?case by auto
next
  case (Cons ag ags)
  obtain res er t1 w1 where x: "Execute ag w (task\<lparr>Input := cur\<rparr>) = (res, er, t1, w1)"
    by (metis prod_cases4)
  show ?case
  proof (cases er)
    case (Some err)
    with Cons.prems x show ?thesis by auto
  next
    case None
    define r1 where "r1 = result\<lparr>Steps := Steps result @ Steps res,
                    Artifacts := Artifacts result @ Artifacts res\<rparr>"
    from Cons.prems x None have l: "pipe_loop ags (coerce_output (Output res)) w1 t1 r1 = (r, e, task', w')"
      by (simp add: r1_def)
    have o: "pipe_outcomes (ag # ags) cur w task
               = (res, None) # pipe_outcomes ags (coerce_output (Output res)) w1 t1"
      using x None by simp
    from Cons.IH[OF l] show ?thesis
      unfolding o by (cases e) (auto simp: r1_def nth_Cons split: nat.splits)
  qed
qed

lemma pipe_loop_append:
  "pipe_loop (xs @ ys) cur w t r =
     (case pipe_loop xs cur w t r of
        (r1, Some e, t1, w1) \<Rightarrow> (r1, Some e, t1, w1)
      | (r1, None, t1, w1) \<Rightarrow>
          pipe_loop ys (coerce_output (Output r1)) w1 t1
            (r1\<lparr>Output := Output r, Success := Success r\<rparr>))"
proof (induction xs arbitrary: cur w t r)
  case Nil
  show ?case by (simp add: coerce_output_def)
next
  case (Cons x xs)
  show ?case
    by (simp add: Cons.IH Let_def split: prod.splits option.splits)
qed

section \<open>State deltas: lemmas\<close>


lemma llm_loop_StateDelta:
  assumes "\<forall>sub \<in> set (subAgents a). no_StateDelta sub"
      and "\<forall>s \<in> set (Steps result). StateDelta s = None"
      and "llm_loop lower a turn w task history result = (r, e, task', w')"
  shows "\<forall>s \<in> set (Steps r). StateDelta s = None"
  using assms
proof (induction lower a turn w task history result rule: llm_loop.induct)
  case (1 lower a turn w task history result)
  show ?case
  proof (cases "turn < maxTurns a")
    case False
    with "1.prems" show ?thesis by (auto simp: llm_loop.simps)
  next
    case True
    show ?thesis
    proof (cases "llm_turn lower a w task history result")
      case (Continue w1 t1 h1 r1)
      from "1.prems"(3) True Continue have l: "llm_loop lower a (turn + 1) w1 t1 h1 r1 = (r, e, task', w')"
        by (subst (asm) llm_loop.simps) simp
      from llm_turn_Continue[OF Continue] "1.prems"(2)
      have "\<forall>s \<in> set (Steps r1). StateDelta s = None" by auto
      from "1.IH"[OF True Continue "1.prems"(1) this l] show ?thesis .
    next
      case (Return out)
      from "1.prems"(3) True Return have "out = (r, e, task', w')"
        by (subst (asm) llm_loop.simps) simp
      with Return have "llm_turn lower a w task history result = Return (r, e, task', w')" by simp
      then show ?thesis
      proof (cases rule: llm_turn_Return_cases)
        case (model_error err)
        with "1.prems"(2) show ?thesis by (auto simp: model_error_step_def)
      next
        case (delegated resp w1 sub subResult)
        from delegated(4) have "sub \<in> set (subAgents a)" by (auto simp: find_Some_iff)
        with "1.prems"(1) have "no_StateDelta sub" by blast
        then have "\<forall>s \<in> set (Steps (fst (Execute sub w1 task))). StateDelta s = None"
          unfolding no_StateDelta_def by blast
        with delegated(5) have "\<forall>s \<in> set (Steps subResult). StateDelta s = None" by simp
        with delegated(6) "1.prems"(2) show ?thesis
          by (cases e) (auto simp: delegate_step_def)
      next
        case (completed resp)
        with "1.prems"(2) show ?thesis by auto
      qed
    qed
  qed
qed

lemma LLMAgent_no_StateDelta:
  assumes "\<forall>sub \<in> set (subAgents a). no_StateDelta sub"
  shows "no_StateDelta (LLMAgent_as_Agent lower a)"
proof -
  have "\<forall>s \<in> set (Steps (fst (LLMAgent_Execute lower a w task))). StateDelta s = None" for w task
  proof -
    obtain r e t w' where x: "LLMAgent_Execute lower a w task = (r, e, t, w')" by (metis prod_cases4)
    have "\<forall>s \<in> set (Steps (llm_new_result task)). StateDelta s = None"
      by (simp add: llm_new_result_def)
    from llm_loop_StateDelta[OF assms this x[unfolded LLMAgent_Execute_def]] x
    show ?thesis by simp
  qed
  then show ?thesis by (simp add: no_StateDelta_def LLMAgent_as_Agent_def)
qed

lemma seq_loop_StateDelta:
  assumes "\<forall>ag \<in> set agents. no_StateDelta ag"
      and "\<forall>s \<in> set (Steps result). StateDelta s = None"
      and "seq_loop agents w task result = (r, e, task', w')"
  shows "\<forall>s \<in> set (Steps r). StateDelta s = None"
  using assms
proof (induction agents arbitrary: w task result)
  case Nil
  then show ?case by auto
next
  case (Cons ag ags)
  obtain res er t1 w1 where x: "Execute ag w task = (res, er, t1, w1)" by (metis prod_cases4)
  from Cons.prems(1) have "no_StateDelta ag" by simp
  then have "\<forall>s \<in> set (Steps (fst (Execute ag w task))). StateDelta s = None"
    unfolding no_StateDelta_def by blast
  with x have res: "\<forall>s \<in> set (Steps res). StateDelta s = None" by simp
  show ?case
  proof (cases er)
    case (Some err)
    with Cons.prems x show ?thesis by auto
  next
    case None
    define r1 where "r1 = result\<lparr>Steps := Steps result @ Steps res, Output := Output res,
                    Artifacts := Artifacts result @ Artifacts res\<rparr>"
    from Cons.prems(3) x None have l: "seq_loop ags w1 t1 r1 = (r, e, task', w')"
      by (simp add: r1_def)
    have "\<forall>s \<in> set (Steps r1). StateDelta s = None"
      using Cons.prems(2) res by (auto simp: r1_def)
    from Cons.IH[OF _ this l] Cons.prems(1) show ?thesis by simp
  qed
qed

lemma pipe_loop_StateDelta:
  assumes "\<forall>ag \<in> set stages. no_StateDelta ag"
      and "\<forall>s \<in> set (Steps result). StateDelta s = None"
      and "pipe_loop stages cur w task result = (r, e, task', w')"
  shows "\<forall>s \<in> set (Steps r). StateDelta s = None"
  using assms
proof (induction stages arbitrary: cur w task result)
  case Nil
  then show ?case by auto
next
  case (Cons ag ags)
  obtain res er t1 w1 where x: "Execute ag w (task\<lparr>Input := cur\<rparr>) = (res, er, t1, w1)"
    by (metis prod_cases4)
  from Cons.prems(1) have "no_StateDelta ag" by simp
  then have "\<forall>s \<in> set (Steps (fst (Execute ag w (task\<lparr>Input := cur\<rparr>)))). StateDelta s = None"
    unfolding no_StateDelta_def by blast
  with x have res: "\<forall>s \<in> set (Steps res). StateDelta s = None" by simp
  show ?case
  proof (cases er)
    case (Some err)
    with Cons.prems x show ?thesis by auto
  next
    case None
    define r1 where "r1 = result\<lparr>Steps := Steps result @ Steps res,
                    Artifacts := Artifacts result @ Artifacts res\<rparr>"
    from Cons.prems(3) x None
    have l: "pipe_loop ags (coerce_output (Output res)) w1 t1 r1 = (r, e, task', w')"
      by (simp add: r1_def)
    have "\<forall>s \<in> set (Steps r1). StateDelta s = None"
      using Cons.prems(2) res by (auto simp: r1_def)
    from Cons.IH[OF _ this l] Cons.prems(1) show ?thesis by simp
  qed
qed

lemma par_run_StateDelta:
  assumes "\<forall>ag \<in> set agents. no_StateDelta ag"
      and "par_run agents w task = (results, w')"
  shows "\<forall>res \<in> set results. \<forall>s \<in> set (Steps (fst res)). StateDelta s = None"
  using assms
proof (induction agents arbitrary: w results w')
  case Nil
  then show ?case by simp
next
  case (Cons ag ags)
  define tc where "tc = task\<lparr>State := gomap_merge (State task) []\<rparr>"
  obtain res er t1 w1 where x: "Execute ag w tc = (res, er, t1, w1)" by (metis prod_cases4)
  obtain rs w2 where p: "par_run ags w1 task = (rs, w2)" by fastforce
  from Cons.prems(1) have "no_StateDelta ag" by simp
  then have "\<forall>s \<in> set (Steps (fst (Execute ag w tc))). StateDelta s = None"
    unfolding no_StateDelta_def by blast
  with x have res: "\<forall>s \<in> set (Steps res). StateDelta s = None" by simp
  from Cons.prems(2) x p have "results = (res, er) # rs"
    by (simp add: tc_def Let_def)
  with Cons.IH[OF _ p] Cons.prems(1) res show ?case by simp
qed

lemma parallel_StateDelta:
  assumes "\<forall>ag \<in> set agents. no_StateDelta ag"
      and "ParallelAgent_Execute agents w task = (r, e, task', w')"
  shows "(\<forall>s \<in> set (Steps r). StateDelta s = None) \<and> task' = task"
proof -
  obtain results w1 where p: "par_run agents w task = (results, w1)" by fastforce
  note d = par_run_StateDelta[OF assms(1) p]
  have len: "length agents = length results" using length_par_run[OF p] by simp
  have m: "par_merge (zip agents results) [] task (new_result task) = (r, e, task')"
    using assms(2) by (auto simp: ParallelAgent_Execute_def p split: prod.splits)
  have "\<forall>z \<in> set (zip agents results). \<forall>s \<in> set (Steps (fst (snd z))). StateDelta s = None"
    using d by (auto dest!: set_zip_rightD)
  from par_merge_task[OF this m] have t: "task' = task" .
  have "\<forall>s \<in> set (Steps r). StateDelta s = None"
  proof (cases "\<forall>res \<in> set results. snd res = None")
    case True
    from parallel_success[OF p assms(2) True] d show ?thesis by auto
  next
    case False
    from parallel_failure[OF p assms(2) False] obtain k where
      "Steps r = concat (map (Steps \<circ> fst) (take k results))" by blast
    with d show ?thesis by (auto dest!: in_set_takeD)
  qed
  with t show ?thesis by simp
qed

lemma package_no_StateDelta: "no_StateDelta (as_Agent lower ag)"
proof (induction ag)
  case (LLM n d p m ts subs mt)
  then show ?case by (simp add: LLMAgent_no_StateDelta)
next
  case (Sequential n agents)
  have "\<forall>s \<in> set (Steps (fst (SequentialAgent_Execute (map (as_Agent lower) agents) w task))). StateDelta s = None"
    for w task
  proof -
    obtain r e t w' where x: "SequentialAgent_Execute (map (as_Agent lower) agents) w task = (r, e, t, w')"
      by (metis prod_cases4)
    have "\<forall>s \<in> set (Steps (new_result task)). StateDelta s = None" by (simp add: new_result_def)
    from seq_loop_StateDelta[OF _ this x[unfolded SequentialAgent_Execute_def]] Sequential x
    show ?thesis by simp
  qed
  then show ?case by (simp add: no_StateDelta_def NewSequentialAgent_def)
next
  case (Parallel n agents)
  have "\<forall>s \<in> set (Steps (fst (ParallelAgent_Execute (map (as_Agent lower) agents) w task))). StateDelta s = None"
    for w task
  proof -
    obtain r e t w' where x: "ParallelAgent_Execute (map (as_Agent lower) agents) w task = (r, e, t, w')"
      by (metis prod_cases4)
    from parallel_StateDelta[OF _ x] Parallel x show ?thesis by simp
  qed
  then show ?case by (simp add: no_StateDelta_def NewParallelAgent_def)
next
  case (Pipeline n stages)
  have "\<forall>s \<in> set (Steps (fst (PipelineAgent_Execute (map (as_Agent lower) stages) w task))). StateDelta s = None"
    for w task
  proof -
    obtain r e t w' where x: "PipelineAgent_Execute (map (as_Agent lower) stages) w task = (r, e, t, w')"
      by (metis prod_cases4)
    have "\<forall>s \<in> set (Steps (new_result task)). StateDelta s = None" by (simp add: new_result_def)
    from pipe_loop_StateDelta[OF _ this x[unfolded PipelineAgent_Execute_def]] Pipeline x
    show ?thesis by simp
  qed
  then show ?case by (simp add: no_StateDelta_def NewPipelineAgent_def)
qed

section \<open>The execution configuration: lemmas\<close>
















section \<open>The job executor: lemmas\<close>


lemma executeJob_finish_Status:
  "executeJob_finish ag w job = (job', w') \<Longrightarrow>
     (Status job' = JobCompleted \<and> job_Error job' = None)
   \<or> (Status job' = JobFailed \<and> job_Error job' \<noteq> None)"
  by (auto simp: executeJob_finish_def Let_def split: prod.splits if_splits)

lemma inv_NewExecutor: "executor_inv (NewExecutor ag count w)"
  by (simp add: executor_inv_def NewExecutor_def Let_def)

lemma inv_step:
  assumes "executor_inv e" and "executor_step ev e = Some e'"
  shows "executor_inv e'"
proof (cases ev)
  case (EvSubmit taskID input params config)
  with assms(2) have e': "e' = Submit taskID input params config e" by simp
  from assms(1) show ?thesis
    unfolding e' executor_inv_def Submit_def Let_def
    by (auto simp: nth_append less_Suc_eq)
next
  case (EvSend a)
  with assms(2) have a: "a \<in> set (sending e)" and
    e': "e' = e\<lparr>sending := remove1 a (sending e), jobQueue := jobQueue e @ [a]\<rparr>"
    by (auto split: if_splits)
  from assms(1) have d: "distinct (sending e @ jobQueue e)" by (simp add: executor_inv_def)
  have s: "set (remove1 a (sending e) @ jobQueue e @ [a]) = set (sending e @ jobQueue e)"
    using a d by auto
  have "distinct (remove1 a (sending e) @ jobQueue e @ [a])"
    using a d by auto
  with assms(1) s show ?thesis
    unfolding e' executor_inv_def by simp
next
  case (EvStart wid)
  with assms(2) have wid: "wid < length (workers e)" "workers e ! wid = None"
    and q: "jobQueue e \<noteq> []"
    and e': "e' = e\<lparr>jobQueue := tl (jobQueue e),
                      workers := (workers e)[wid := Some (hd (jobQueue e))],
                      heap := (heap e)[hd (jobQueue e) := executeJob_start (heap e ! hd (jobQueue e))]\<rparr>"
    by (auto split: if_splits simp: Let_def)
  define a where "a = hd (jobQueue e)"
  from q have qa: "jobQueue e = a # tl (jobQueue e)" by (simp add: a_def)
  from assms(1) have d: "distinct (sending e @ jobQueue e)"
    and p: "\<forall>b \<in> set (sending e @ jobQueue e). b < length (heap e) \<and> Status (heap e ! b) = JobPending"
    and r: "\<forall>i < length (workers e). \<forall>b. workers e ! i = Some b \<longrightarrow>
          b < length (heap e) \<and> Status (heap e ! b) = JobRunning
        \<and> b \<notin> set (sending e @ jobQueue e)
        \<and> (\<forall>j < length (workers e). j \<noteq> i \<longrightarrow> workers e ! j \<noteq> Some b)"
    by (simp_all add: executor_inv_def)
  have a_in: "a \<in> set (jobQueue e)" using qa by (metis list.set_intros(1))
  have a_notin: "a \<notin> set (sending e @ tl (jobQueue e))"
    using d qa by (metis distinct.simps(2) distinct_append disjoint_iff list.set_intros(1) set_append UnE)
  have a_len: "a < length (heap e)" using p a_in by simp
  have a_free: "\<forall>j < length (workers e). workers e ! j \<noteq> Some a"
    using r a_in by (metis UnCI set_append)
  have d': "distinct (sending e @ tl (jobQueue e))"
    using d qa by (metis distinct.simps(2) distinct_append disjoint_iff list.set_intros(2))
  have sub: "set (sending e @ tl (jobQueue e)) \<subseteq> set (sending e @ jobQueue e)"
    using qa by (metis list.set_intros(2) set_append subsetI UnE UnI1 UnI2)
  have p': "\<forall>b \<in> set (sending e @ tl (jobQueue e)).
              b < length ((heap e)[a := executeJob_start (heap e ! a)])
            \<and> Status ((heap e)[a := executeJob_start (heap e ! a)] ! b) = JobPending"
  proof
    fix b assume b: "b \<in> set (sending e @ tl (jobQueue e))"
    with sub have "b \<in> set (sending e @ jobQueue e)" by blast
    with p have "b < length (heap e)" "Status (heap e ! b) = JobPending" by blast+
    moreover from b a_notin have "b \<noteq> a" by blast
    ultimately show "b < length ((heap e)[a := executeJob_start (heap e ! a)])
            \<and> Status ((heap e)[a := executeJob_start (heap e ! a)] ! b) = JobPending"
      by simp
  qed
  have r': "\<forall>i < length ((workers e)[wid := Some a]). \<forall>b. (workers e)[wid := Some a] ! i = Some b \<longrightarrow>
          b < length ((heap e)[a := executeJob_start (heap e ! a)])
        \<and> Status ((heap e)[a := executeJob_start (heap e ! a)] ! b) = JobRunning
        \<and> b \<notin> set (sending e @ tl (jobQueue e))
        \<and> (\<forall>j < length ((workers e)[wid := Some a]). j \<noteq> i \<longrightarrow> (workers e)[wid := Some a] ! j \<noteq> Some b)"
  proof (intro allI impI)
    fix i b assume i: "i < length ((workers e)[wid := Some a])"
      and b: "(workers e)[wid := Some a] ! i = Some b"
    show "b < length ((heap e)[a := executeJob_start (heap e ! a)])
        \<and> Status ((heap e)[a := executeJob_start (heap e ! a)] ! b) = JobRunning
        \<and> b \<notin> set (sending e @ tl (jobQueue e))
        \<and> (\<forall>j < length ((workers e)[wid := Some a]). j \<noteq> i \<longrightarrow> (workers e)[wid := Some a] ! j \<noteq> Some b)"
    proof (cases "i = wid")
      case True
      with b wid have "b = a" by simp
      with True a_len a_notin a_free wid show ?thesis
        by (auto simp: nth_list_update executeJob_start_def)
    next
      case False
      with b i have wb: "workers e ! i = Some b" and il: "i < length (workers e)" by simp_all
      from r il wb have rb: "b < length (heap e)" "Status (heap e ! b) = JobRunning"
        "b \<notin> set (sending e @ jobQueue e)"
        "\<forall>j < length (workers e). j \<noteq> i \<longrightarrow> workers e ! j \<noteq> Some b" by blast+
      from a_free il wb have "b \<noteq> a" by auto
      with rb sub il wid(1) show ?thesis
        by (auto simp: nth_list_update split: if_splits)
    qed
  qed
  from d' p' r' show ?thesis
    unfolding e' executor_inv_def a_def[symmetric] by simp
next
  case (EvFinish wid)
  with assms(2) obtain a job w' where wid: "wid < length (workers e)"
    and wa: "workers e ! wid = Some a"
    and f: "executeJob_finish (agent e) (world e) (heap e ! a) = (job, w')"
    and e': "e' = e\<lparr>workers := (workers e)[wid := None], heap := (heap e)[a := job], world := w'\<rparr>"
    by (auto split: if_splits option.splits prod.splits simp: Let_def)
  from assms(1) have d: "distinct (sending e @ jobQueue e)"
    and p: "\<forall>b \<in> set (sending e @ jobQueue e). b < length (heap e) \<and> Status (heap e ! b) = JobPending"
    and r: "\<forall>i < length (workers e). \<forall>b. workers e ! i = Some b \<longrightarrow>
          b < length (heap e) \<and> Status (heap e ! b) = JobRunning
        \<and> b \<notin> set (sending e @ jobQueue e)
        \<and> (\<forall>j < length (workers e). j \<noteq> i \<longrightarrow> workers e ! j \<noteq> Some b)"
    by (simp_all add: executor_inv_def)
  from r wid wa have ra: "a < length (heap e)" "a \<notin> set (sending e @ jobQueue e)"
    "\<forall>j < length (workers e). j \<noteq> wid \<longrightarrow> workers e ! j \<noteq> Some a" by blast+
  have p': "\<forall>b \<in> set (sending e @ jobQueue e).
              b < length ((heap e)[a := job]) \<and> Status ((heap e)[a := job] ! b) = JobPending"
  proof
    fix b assume b: "b \<in> set (sending e @ jobQueue e)"
    with p have "b < length (heap e)" "Status (heap e ! b) = JobPending" by blast+
    moreover from b ra(2) have "b \<noteq> a" by blast
    ultimately show "b < length ((heap e)[a := job]) \<and> Status ((heap e)[a := job] ! b) = JobPending"
      by simp
  qed
  have r': "\<forall>i < length ((workers e)[wid := None]). \<forall>b. (workers e)[wid := None] ! i = Some b \<longrightarrow>
          b < length ((heap e)[a := job])
        \<and> Status ((heap e)[a := job] ! b) = JobRunning
        \<and> b \<notin> set (sending e @ jobQueue e)
        \<and> (\<forall>j < length ((workers e)[wid := None]). j \<noteq> i \<longrightarrow> (workers e)[wid := None] ! j \<noteq> Some b)"
  proof (intro allI impI)
    fix i b assume i: "i < length ((workers e)[wid := None])"
      and b: "(workers e)[wid := None] ! i = Some b"
    from b i have ne: "i \<noteq> wid" by (auto simp: nth_list_update split: if_splits)
    with b i have wb: "workers e ! i = Some b" and il: "i < length (workers e)" by simp_all
    from r il wb have rb: "b < length (heap e)" "Status (heap e ! b) = JobRunning"
        "b \<notin> set (sending e @ jobQueue e)"
        "\<forall>j < length (workers e). j \<noteq> i \<longrightarrow> workers e ! j \<noteq> Some b" by blast+
    from ra(3) il ne wb have "b \<noteq> a" by auto
    with rb il wid show "b < length ((heap e)[a := job])
        \<and> Status ((heap e)[a := job] ! b) = JobRunning
        \<and> b \<notin> set (sending e @ jobQueue e)
        \<and> (\<forall>j < length ((workers e)[wid := None]). j \<noteq> i \<longrightarrow> (workers e)[wid := None] ! j \<noteq> Some b)"
      by (auto simp: nth_list_update split: if_splits)
  qed
  from d p' r' show ?thesis
    unfolding e' executor_inv_def by simp
qed

lemma reachable_inv: "reachable e \<Longrightarrow> executor_inv e"
  by (induction rule: reachable.induct) (auto intro: inv_NewExecutor inv_step)

lemma executeJob_finish_eq:
  "fst (executeJob_finish ag w job) =
     (case Execute ag w (job_Task job) of
        (result, err, task', w') \<Rightarrow>
          job\<lparr>job_Task := task', job_Result := Some result, job_Error := err,
               Status := (if err = None then JobCompleted else JobFailed)\<rparr>)"
  by (simp add: executeJob_finish_def Let_def split: prod.splits)

lemma reachable_run_events:
  "reachable e \<Longrightarrow> run_events evs e = Some e' \<Longrightarrow> reachable e'"
proof (induction evs arbitrary: e)
  case Nil
  then show ?case by simp
next
  case (Cons ev evs)
  then show ?case
    by (auto split: option.splits intro: reachable.step)
qed

lemma run_events_snoc:
  "run_events (evs @ [ev]) e =
     (case run_events evs e of None \<Rightarrow> None | Some e' \<Rightarrow> executor_step ev e')"
  by (induction evs arbitrary: e) (auto split: option.splits)

section \<open>Claims\<close>

text \<open>
  C1, as the code has it. When every turn of the loop, up to the budget \<open>maxTurns\<close>,
  requests tool calls, \<open>LLMAgent.Execute\<close> returns a failed result with the error
  message \<open>max iterations reached\<close>, which is neither a model error message nor a
  sub-agent error message, together with a non-nil error. The result has one step for
  each turn the loop ran: as many as the budget when the budget is not negative, and
  none when it is negative.
\<close>

theorem C1_max_iterations_reached:
  assumes "only_tool_turns lower a 0 w task (initial_history a task) (llm_new_result task)"
      and "LLMAgent_Execute lower a w task = (r, err, task', w')"
  shows "\<not> Success r \<and> Error r = ''max iterations reached''
       \<and> \<not> prefix ''LLM error: '' (Error r) \<and> \<not> prefix ''sub-agent failed: '' (Error r)
       \<and> err = Some (Errorf ''max iterations reached'')
       \<and> int (length (Steps r)) = max 0 (maxTurns a)"
  using exhausted_loop[OF assms(1) assms(2)[unfolded LLMAgent_Execute_def]]
  by (auto simp: llm_new_result_def)

theorem C1_max_iterations_reached_witness:
  "only_tool_turns plain always_calc 0 0 (example_task ''2+2'')
     (initial_history always_calc (example_task ''2+2'')) (llm_new_result (example_task ''2+2''))
   \<and> maxTurns always_calc = 2
   \<and> Error (fst (LLMAgent_Execute plain always_calc 0 (example_task ''2+2''))) = ''max iterations reached''
   \<and> length (Steps (fst (LLMAgent_Execute plain always_calc 0 (example_task ''2+2'')))) = 2"
proof -
  have h: "only_tool_turns plain always_calc 0 0 (example_task ''2+2'')
     (initial_history always_calc (example_task ''2+2'')) (llm_new_result (example_task ''2+2''))"
    by (simp add: always_calc_def example_defs run_defs)
  obtain r err t w' where e: "LLMAgent_Execute plain always_calc 0 (example_task ''2+2'') = (r, err, t, w')"
    by (metis prod_cases4)
  have m: "maxTurns always_calc = 2"
    by (simp add: always_calc_def example_defs)
  from C1_max_iterations_reached[OF h e] m e h show ?thesis by simp
qed

text \<open>
  The claim C1 as stated fails for a negative budget, which \<open>NewLLMAgent\<close> accepts (it
  replaces 0 only): with \<open>MaxTurns\<close> set to \<open>-1\<close> the loop runs no turn, so every turn
  it runs requests tool calls, and the result of \<open>max iterations reached\<close> has no step;
  the length of its \<open>Steps\<close> is 0 and the budget is \<open>-1\<close>.
\<close>

theorem C1_negative_budget_counterexample:
  "only_tool_turns plain negative_budget 0 0 (example_task ''2+2'')
     (initial_history negative_budget (example_task ''2+2'')) (llm_new_result (example_task ''2+2''))
   \<and> maxTurns negative_budget = - 1
   \<and> Error (fst (LLMAgent_Execute plain negative_budget 0 (example_task ''2+2'')))
       = ''max iterations reached''
   \<and> Steps (fst (LLMAgent_Execute plain negative_budget 0 (example_task ''2+2''))) = []
   \<and> int (length (Steps (fst (LLMAgent_Execute plain negative_budget 0 (example_task ''2+2'')))))
       \<noteq> maxTurns negative_budget"
  by (simp add: negative_budget_def example_defs run_defs)

text \<open>
  C2, as the code has it. On a failing execution the result holds these steps.
  Reasoning loop: the steps of the turns before the failing one, one for each, and
  then the step of the failing turn (the step with the model's error; the delegate
  step when the sub-agent returned the error, and no step of that sub-agent; nothing
  when the budget is used up). \<open>SequentialAgent\<close>: the steps of the children that
  succeeded, then one \<open>execute\<close> step with the name and the error of the failing child.
  \<open>ParallelAgent\<close>: the steps of the children before the first failing one in index
  order. \<open>PipelineAgent\<close>: the steps of the stages that succeeded. The steps that the
  failing child itself recorded are in none of them.
\<close>

theorem C2_steps_on_failure:
  "(\<forall>(a :: 'w LLMAgent) w0 task0 r err task' w'.
      LLMAgent_Execute lower a w0 task0 = (r, Some err, task', w') \<longrightarrow>
      (\<exists>turn w task history result.
          turn_state lower a w0 task0 turn w task history result
        \<and> int (length (Steps result)) = turn
        \<and> llm_failed_turn lower a turn w task history result r err))
 \<and> (\<forall>(agents :: 'w Agent list) w task r err task' w'.
      SequentialAgent_Execute agents w task = (r, Some err, task', w') \<longrightarrow>
        seq_outcomes agents w task \<noteq> []
      \<and> snd (last (seq_outcomes agents w task)) = Some err
      \<and> (\<forall>out \<in> set (butlast (seq_outcomes agents w task)). snd out = None)
      \<and> Steps r = concat (map (Steps \<circ> fst) (butlast (seq_outcomes agents w task)))
           @ [child_failure_step (agents ! (length (seq_outcomes agents w task) - 1)) err])
 \<and> (\<forall>(agents :: 'w Agent list) w task results w1 r err task' w'.
      par_run agents w task = (results, w1) \<longrightarrow>
      ParallelAgent_Execute agents w task = (r, Some err, task', w') \<longrightarrow>
      (\<exists>k<length agents.
          (\<forall>j<k. snd (results ! j) = None) \<and> snd (results ! k) = Some err
        \<and> Steps r = concat (map (Steps \<circ> fst) (take k results))))
 \<and> (\<forall>(stages :: 'w Agent list) w task r err task' w'.
      PipelineAgent_Execute stages w task = (r, Some err, task', w') \<longrightarrow>
        pipe_outcomes stages (Input task) w task \<noteq> []
      \<and> snd (last (pipe_outcomes stages (Input task) w task)) = Some err
      \<and> (\<forall>out \<in> set (butlast (pipe_outcomes stages (Input task) w task)). snd out = None)
      \<and> Steps r = concat (map (Steps \<circ> fst) (butlast (pipe_outcomes stages (Input task) w task))))"
proof (intro conjI allI impI)
  fix a :: "'w LLMAgent" and w0 task0 r err task' w'
  assume x: "LLMAgent_Execute lower a w0 task0 = (r, Some err, task', w')"
  have "turn_state lower a w0 task0 0 w0 task0 (initial_history a task0) (llm_new_result task0)"
    by (rule turn_state.first_turn)
  from llm_failure[OF this x[unfolded LLMAgent_Execute_def]]
  obtain turn w task history result where
    "turn_state lower a w0 task0 turn w task history result"
    "llm_failed_turn lower a turn w task history result r err" by blast
  with turn_state_inv[OF this(1)]
  show "\<exists>turn w task history result.
          turn_state lower a w0 task0 turn w task history result
        \<and> int (length (Steps result)) = turn
        \<and> llm_failed_turn lower a turn w task history result r err" by blast
next
  fix agents :: "'w Agent list" and w task r err task' w'
  assume "SequentialAgent_Execute agents w task = (r, Some err, task', w')"
  from seq_loop_outcomes[OF this[unfolded SequentialAgent_Execute_def]]
  have s: "seq_outcomes agents w task \<noteq> []
      \<and> snd (last (seq_outcomes agents w task)) = Some err
      \<and> (\<forall>out \<in> set (butlast (seq_outcomes agents w task)). snd out = None)
      \<and> Steps r = concat (map (Steps \<circ> fst) (butlast (seq_outcomes agents w task)))
           @ [child_failure_step (agents ! (length (seq_outcomes agents w task) - 1)) err]"
    by (simp add: new_result_def)
  from s show "seq_outcomes agents w task \<noteq> []" by blast
  from s show "snd (last (seq_outcomes agents w task)) = Some err" by blast
  from s show "\<forall>out \<in> set (butlast (seq_outcomes agents w task)). snd out = None" by blast
  from s show "Steps r = concat (map (Steps \<circ> fst) (butlast (seq_outcomes agents w task)))
           @ [child_failure_step (agents ! (length (seq_outcomes agents w task) - 1)) err]"
    by blast
next
  fix agents :: "'w Agent list" and w task results w1 r err task' w'
  assume p: "par_run agents w task = (results, w1)"
    and x: "ParallelAgent_Execute agents w task = (r, Some err, task', w')"
  have "\<not> (\<forall>res \<in> set results. snd res = None)"
  proof
    assume "\<forall>res \<in> set results. snd res = None"
    from parallel_success[OF p x this] show False by simp
  qed
  from parallel_failure[OF p x this]
  show "\<exists>k<length agents.
          (\<forall>j<k. snd (results ! j) = None) \<and> snd (results ! k) = Some err
        \<and> Steps r = concat (map (Steps \<circ> fst) (take k results))" by auto
next
  fix stages :: "'w Agent list" and w task r err task' w'
  assume "PipelineAgent_Execute stages w task = (r, Some err, task', w')"
  from pipe_loop_outcomes[OF this[unfolded PipelineAgent_Execute_def]]
  have s: "pipe_outcomes stages (Input task) w task \<noteq> []
      \<and> snd (last (pipe_outcomes stages (Input task) w task)) = Some err
      \<and> (\<forall>out \<in> set (butlast (pipe_outcomes stages (Input task) w task)). snd out = None)
      \<and> Steps r = concat (map (Steps \<circ> fst) (butlast (pipe_outcomes stages (Input task) w task)))"
    by (simp add: new_result_def)
  from s show "pipe_outcomes stages (Input task) w task \<noteq> []" by blast
  from s show "snd (last (pipe_outcomes stages (Input task) w task)) = Some err" by blast
  from s show "\<forall>out \<in> set (butlast (pipe_outcomes stages (Input task) w task)). snd out = None"
    by blast
  from s show "Steps r = concat (map (Steps \<circ> fst) (butlast (pipe_outcomes stages (Input task) w task)))"
    by blast
qed

theorem C2_steps_on_failure_witness:
  "fst (snd (LLMAgent_Execute plain (failing_llm ''F'') 0 (example_task ''go''))) = Some (Errorf ''boom'')
 \<and> map step_Error (Steps (fst (LLMAgent_Execute plain (failing_llm ''F'') 0 (example_task ''go''))))
     = [''boom'']
 \<and> fst (snd (SequentialAgent_Execute
               [named_worker ''A'', failing_worker ''F'', named_worker ''C''] 0
               (example_task ''go''))) = Some (Errorf ''boom'')
 \<and> map (\<lambda>s. (AgentName s, Action s))
       (Steps (fst (SequentialAgent_Execute
                      [named_worker ''A'', failing_worker ''F'', named_worker ''C''] 0
                      (example_task ''go''))))
     = [(''A'', ''reasoning''), (''F'', ''execute'')]
 \<and> fst (snd (ParallelAgent_Execute
               [named_worker ''A'', failing_worker ''F'', named_worker ''C''] 0
               (example_task ''go''))) = Some (Errorf ''boom'')
 \<and> map (\<lambda>s. (AgentName s, Action s))
       (Steps (fst (ParallelAgent_Execute
                      [named_worker ''A'', failing_worker ''F'', named_worker ''C''] 0
                      (example_task ''go''))))
     = [(''A'', ''reasoning'')]
 \<and> fst (snd (PipelineAgent_Execute
               [named_worker ''A'', failing_worker ''F'', named_worker ''C''] 0
               (example_task ''go''))) = Some (Errorf ''boom'')
 \<and> map (\<lambda>s. (AgentName s, Action s))
       (Steps (fst (PipelineAgent_Execute
                      [named_worker ''A'', failing_worker ''F'', named_worker ''C''] 0
                      (example_task ''go''))))
     = [(''A'', ''reasoning'')]"
proof -
  define T where "T = example_task ''go''"
  define kids where "kids = [named_worker ''A'', failing_worker ''F'', named_worker ''C'']"
  note defs = T_def kids_def named_worker_def failing_worker_def failing_llm_def
    agent_defs example_defs run_defs
  note th = C2_steps_on_failure[where 'w = nat and lower = plain]
  note t1 = th[THEN conjunct1, rule_format]
  note t2 = th[THEN conjunct2, THEN conjunct1, rule_format]
  note t3 = th[THEN conjunct2, THEN conjunct2, THEN conjunct1, rule_format]
  note t4 = th[THEN conjunct2, THEN conjunct2, THEN conjunct2, rule_format]
  have e1: "fst (snd (LLMAgent_Execute plain (failing_llm ''F'') 0 T)) = Some (Errorf ''boom'')"
    by (simp add: defs)
  then obtain r1 x1 y1 where
    "LLMAgent_Execute plain (failing_llm ''F'') 0 T = (r1, Some (Errorf ''boom''), x1, y1)"
    by (metis prod.collapse)
  from t1[OF this] have "\<exists>turn w task history result.
       turn_state plain (failing_llm ''F'') 0 T turn w task history result
     \<and> int (length (Steps result)) = turn
     \<and> llm_failed_turn plain (failing_llm ''F'') turn w task history result r1 (Errorf ''boom'')" .
  have s1: "map step_Error (Steps (fst (LLMAgent_Execute plain (failing_llm ''F'') 0 T))) = [''boom'']"
    by (simp add: defs)
  have e2: "fst (snd (SequentialAgent_Execute kids 0 T)) = Some (Errorf ''boom'')"
    by (simp add: defs)
  then obtain r2 x2 y2 where
    x2: "SequentialAgent_Execute kids 0 T = (r2, Some (Errorf ''boom''), x2, y2)"
    by (metis prod.collapse)
  have o2: "map (map (\<lambda>s. (AgentName s, Action s)) \<circ> Steps \<circ> fst) (seq_outcomes kids 0 T)
              = [[(''A'', ''reasoning'')], [(''F'', [])]]"
    by (simp add: defs)
  have "Steps r2 = concat (map (Steps \<circ> fst) (butlast (seq_outcomes kids 0 T)))
           @ [child_failure_step (kids ! (length (seq_outcomes kids 0 T) - 1)) (Errorf ''boom'')]"
    using t2[OF x2] by blast
  then have "map (\<lambda>s. (AgentName s, Action s)) (Steps r2)
       = concat (butlast (map (map (\<lambda>s. (AgentName s, Action s)) \<circ> Steps \<circ> fst)
                            (seq_outcomes kids 0 T)))
         @ [(Name (kids ! (length (map (map (\<lambda>s. (AgentName s, Action s)) \<circ> Steps \<circ> fst)
                                     (seq_outcomes kids 0 T)) - 1)), ''execute'')]"
    by (simp add: map_concat map_butlast child_failure_step_def comp_assoc)
  then have s2: "map (\<lambda>s. (AgentName s, Action s)) (Steps r2)
       = [(''A'', ''reasoning''), (''F'', ''execute'')]"
    unfolding o2 by (simp add: kids_def failing_worker_def failing_llm_def agent_defs example_defs)
  obtain results w1 where p3: "par_run kids 0 T = (results, w1)" by fastforce
  have e3: "fst (snd (ParallelAgent_Execute kids 0 T)) = Some (Errorf ''boom'')"
    by (simp add: defs)
  then obtain r3 x3 y3 where
    x3: "ParallelAgent_Execute kids 0 T = (r3, Some (Errorf ''boom''), x3, y3)"
    by (metis prod.collapse)
  from t3[OF p3 x3] have "\<exists>k<length kids. (\<forall>j<k. snd (results ! j) = None)
     \<and> snd (results ! k) = Some (Errorf ''boom'')
     \<and> Steps r3 = concat (map (Steps \<circ> fst) (take k results))" .
  have s3: "map (\<lambda>s. (AgentName s, Action s)) (Steps (fst (ParallelAgent_Execute kids 0 T)))
       = [(''A'', ''reasoning'')]"
    by (simp add: defs)
  have e4: "fst (snd (PipelineAgent_Execute kids 0 T)) = Some (Errorf ''boom'')"
    by (simp add: defs)
  then obtain r4 x4 y4 where
    x4: "PipelineAgent_Execute kids 0 T = (r4, Some (Errorf ''boom''), x4, y4)"
    by (metis prod.collapse)
  have o4: "map (map (\<lambda>s. (AgentName s, Action s)) \<circ> Steps \<circ> fst)
               (pipe_outcomes kids (Input T) 0 T)
              = [[(''A'', ''reasoning'')], [(''F'', [])]]"
    by (simp add: defs)
  have "Steps r4 = concat (map (Steps \<circ> fst) (butlast (pipe_outcomes kids (Input T) 0 T)))"
    using t4[OF x4] by blast
  then have "map (\<lambda>s. (AgentName s, Action s)) (Steps r4)
       = concat (butlast (map (map (\<lambda>s. (AgentName s, Action s)) \<circ> Steps \<circ> fst)
                            (pipe_outcomes kids (Input T) 0 T)))"
    by (simp add: map_concat map_butlast comp_assoc)
  then have s4: "map (\<lambda>s. (AgentName s, Action s)) (Steps r4) = [(''A'', ''reasoning'')]"
    unfolding o4 by simp
  from e1 s1 e2 s2 x2 e3 s3 e4 s4 x4 show ?thesis
    by (simp add: T_def kids_def)
qed

text \<open>
  The claim C2 as stated fails for the steps of the child in which the failure
  occurred: in the pipeline of \<open>A\<close> and \<open>F\<close> the stage \<open>F\<close> fails after it has recorded
  its own step, and the result of the pipeline holds the step of \<open>A\<close> only.
\<close>

theorem C2_failing_child_steps_counterexample:
  "fst (snd (PipelineAgent_Execute [named_worker ''A'', failing_worker ''F''] 0
               (example_task ''go''))) = Some (Errorf ''boom'')
 \<and> map (map (\<lambda>s. (AgentName s, step_Error s)) \<circ> Steps \<circ> fst)
       (pipe_outcomes [named_worker ''A'', failing_worker ''F'']
          (Input (example_task ''go'')) 0 (example_task ''go''))
     = [[(''A'', [])], [(''F'', ''boom'')]]
 \<and> map (\<lambda>s. (AgentName s, step_Error s))
       (Steps (fst (PipelineAgent_Execute [named_worker ''A'', failing_worker ''F''] 0
                      (example_task ''go''))))
     = [(''A'', [])]"
  by (simp add: named_worker_def failing_worker_def failing_llm_def
        agent_defs example_defs run_defs)

text \<open>
  C3. A turn whose response asks for the tools \<open>missing\<close> (not configured) and
  \<open>calculator\<close>: the loop goes on after the unresolved call and runs the calculator,
  and the message added to the history reports both calls, the first with its
  \<open>tool not found\<close> error; but the step recorded for the turn holds one \<open>ToolCall\<close>,
  the calculator's. The unresolved call, with its error, is in no entry of the step.
\<close>

theorem C3_unresolved_call_not_in_step:
  "(case llm_turn lower missing_then_calc 0 (example_task ''2+2'')
           (initial_history missing_then_calc (example_task ''2+2''))
           (llm_new_result (example_task ''2+2'')) of
      Continue w task history result \<Rightarrow>
        (map tc_Name (step_ToolCalls (last (Steps result))), msg_Content (last history))
    | Return out \<Rightarrow> ([], []))
   = ([''calculator''],
      ''missing failed: tool not found: missing'' @ [CHR 0x0A]
        @ ''calculator result: map[result:4]'')"
  by (simp add: missing_then_calc_def example_defs run_defs agent_defs
        formatToolResults_def itoa_def)

text \<open>
  C4. A turn of the loop of \<open>Execute a w0 task0\<close> (the loop stands at its head with the
  task as the tool turns left it) in which the model answers without tool calls, its
  text contains \<open>delegate to\<close> and, lower-cased, the lower-cased name of the child at
  index \<open>i\<close> and of no child before it: that child is executed on the task, and
  \<open>Execute\<close> returns what it left. When the child returns no error, the steps are
  this agent's steps so far, the delegate step, then the child's steps, and the
  output, the artifacts and the success flag are the child's. When the child returns
  an error, \<open>Execute\<close> returns that error with a failed result.
\<close>

theorem C4_delegation:
  assumes "turn_state lower a w0 task0 turn w task history result"
      and "turn < maxTurns a"
      and "model a w (Input task) (Files task) (tools a) history = (Inr resp, w1)"
      and "resp_ToolCalls resp = []"
      and "Contains (ToLower lower (resp_Content resp)) ''delegate to''"
      and "i < length (subAgents a)"
      and "Contains (ToLower lower (resp_Content resp)) (ToLower lower (Name (subAgents a ! i)))"
      and "\<forall>j<i. \<not> Contains (ToLower lower (resp_Content resp)) (ToLower lower (Name (subAgents a ! j)))"
      and "Execute (subAgents a ! i) w1 task = (subResult, subErr, task', w2)"
  shows "\<exists>r. LLMAgent_Execute lower a w0 task0 = (r, subErr, task', w2)
       \<and> (case subErr of
            None \<Rightarrow>
              Steps r = Steps result @ [delegate_step a resp (subAgents a ! i)] @ Steps subResult
            \<and> Output r = Output subResult \<and> Artifacts r = Artifacts subResult
            \<and> Success r = Success subResult
          | Some e \<Rightarrow>
              \<not> Success r \<and> Error r = ''sub-agent failed: '' @ ErrorMsg e
            \<and> Steps r = Steps result @ [delegate_step a resp (subAgents a ! i)])"
proof -
  have f: "find (\<lambda>sub. Contains (ToLower lower (resp_Content resp)) (ToLower lower (Name sub)))
             (subAgents a) = Some (subAgents a ! i)"
    using assms(6,7,8) by (rule find_first)
  have l: "LLMAgent_Execute lower a w0 task0 = llm_loop lower a turn w task history result"
    using loop_from_turn_state[OF assms(1)] by simp
  have ns: "\<not> Success result" using turn_state_inv[OF assms(1)] by simp
  have "llm_loop lower a turn w task history result =
     (case subErr of
        None \<Rightarrow>
          (result\<lparr>Steps := Steps result @ [delegate_step a resp (subAgents a ! i)] @ Steps subResult,
                  Output := Output subResult, Artifacts := Artifacts subResult,
                  Success := Success subResult\<rparr>, None, task', w2)
      | Some e \<Rightarrow>
          (result\<lparr>Steps := Steps result @ [delegate_step a resp (subAgents a ! i)],
                  Error := ''sub-agent failed: '' @ ErrorMsg e\<rparr>, Some e, task', w2))"
    using assms(2) llm_turn_delegate[OF assms(3,4,5) f assms(9), of result]
    by (subst llm_loop.simps) simp
  with l ns show ?thesis by (cases subErr) simp_all
qed

theorem C4_delegation_witness:
  "turn_state plain (delegating_parent (\<lambda>n. say ''done'')) 0 (example_task ''hi'') 0 0
     (example_task ''hi'')
     (initial_history (delegating_parent (\<lambda>n. say ''done'')) (example_task ''hi''))
     (llm_new_result (example_task ''hi''))
   \<and> Name (subAgents (delegating_parent (\<lambda>n. say ''done'')) ! 1) = ''helper''
   \<and> Contains (ToLower plain ''Please Delegate To Helper'') ''delegate to''
   \<and> Contains (ToLower plain ''Please Delegate To Helper'') (ToLower plain ''helper'')
   \<and> \<not> Contains (ToLower plain ''Please Delegate To Helper'') (ToLower plain ''other'')
   \<and> Output (fst (Execute (helper (\<lambda>n. say ''done'')) 1 (example_task ''hi''))) = VString ''done''
   \<and> Output (fst (LLMAgent_Execute plain (delegating_parent (\<lambda>n. say ''done'')) 0 (example_task ''hi'')))
       = VString ''done''
   \<and> Success (fst (LLMAgent_Execute plain (delegating_parent (\<lambda>n. say ''done'')) 0 (example_task ''hi'')))
   \<and> map AgentName
        (Steps (fst (LLMAgent_Execute plain (delegating_parent (\<lambda>n. say ''done'')) 0 (example_task ''hi''))))
       = [''parent'', ''helper'']"
proof -
  define P where "P = delegating_parent (\<lambda>n. say ''done'')"
  define T where "T = example_task ''hi''"
  define resp where "resp = \<lparr>resp_Content = ''Please Delegate To Helper'', resp_ToolCalls = [],
     resp_Reasoning = [], resp_Finished = True, resp_Usage = None\<rparr>"
  define sub where "sub = \<lparr>TaskID = ''t1'', Success = True, Output = VString ''done'',
     Artifacts = [], Metadata = Some [], Error = [],
     Steps = [\<lparr>AgentName = ''helper'', Action = ''reasoning'', step_Input = VNil,
               step_Output = VString ''done'', step_Error = [], step_TokenUsage = None,
               step_ToolCalls = [], StateDelta = None\<rparr>],
     TotalTokenUsage = \<lparr>PromptTokens = 0, CompletionTokens = 0, TotalTokens = 0\<rparr>\<rparr>"
  have subs: "subAgents P = [LLMAgent_as_Agent plain (llm_agent ''other'' (\<lambda>n. say ''no'') [] [] 3),
                             helper (\<lambda>n. say ''done'')]"
    by (simp add: P_def delegating_parent_def example_defs)
  have names: "Name (subAgents P ! 0) = ''other''" "Name (subAgents P ! 1) = ''helper''"
    by (simp_all add: subs helper_def LLMAgent_as_Agent_def example_defs)
  have h1: "turn_state plain P 0 T 0 0 T (initial_history P T) (llm_new_result T)"
    by (rule turn_state.first_turn)
  have h2: "0 < maxTurns P"
    by (simp add: P_def delegating_parent_def example_defs)
  have h3: "model P 0 (Input T) (Files T) (tools P) (initial_history P T) = (Inr resp, 1)"
    by (simp add: P_def resp_def delegating_parent_def example_defs)
  have h4: "resp_ToolCalls resp = []" by (simp add: resp_def)
  have h5: "Contains (ToLower plain (resp_Content resp)) ''delegate to''"
    by (simp add: resp_def ToLower_def lower_char_def)
  have h6: "1 < length (subAgents P)" by (simp add: subs)
  have h7: "Contains (ToLower plain (resp_Content resp)) (ToLower plain (Name (subAgents P ! 1)))"
    using names by (simp add: resp_def ToLower_def lower_char_def)
  have n0: "\<not> Contains (ToLower plain (resp_Content resp)) (ToLower plain (Name (subAgents P ! 0)))"
    using names by (simp add: resp_def ToLower_def lower_char_def)
  have h8: "\<forall>j<1. \<not> Contains (ToLower plain (resp_Content resp)) (ToLower plain (Name (subAgents P ! j)))"
    using n0 by simp
  have h9: "Execute (subAgents P ! 1) 1 T = (sub, None, T, 2)"
    by (simp add: subs sub_def T_def helper_def LLMAgent_as_Agent_def example_defs run_defs
          initial_history_def extractArtifacts_def aggregateMetrics_def injectState_def
          ToLower_def lower_char_def)
  from C4_delegation[OF h1 h2 h3 h4 h5 h6 h7 h8 h9] obtain r where
    r: "LLMAgent_Execute plain P 0 T = (r, None, T, 2)"
    and s: "Steps r = Steps (llm_new_result T) @ [delegate_step P resp (subAgents P ! 1)] @ Steps sub"
    and o: "Output r = Output sub" "Success r = Success sub"
    by auto
  have "map AgentName (Steps r) = [''parent'', ''helper'']"
    by (simp add: s sub_def delegate_step_def llm_new_result_def P_def delegating_parent_def
          example_defs)
  moreover have "Execute (helper (\<lambda>n. say ''done'')) 1 T = (sub, None, T, 2)"
    using h9 by (simp add: subs)
  ultimately show ?thesis
    using h1 h5 h7 n0 r o names by (simp add: P_def T_def resp_def sub_def)
qed




text \<open>
  C6, as the code has it. A turn of the loop of \<open>Execute a w0 task0\<close> whose response
  requests the tool calls \<open>pre\<close>, \<open>tc\<close>, \<open>post\<close>: the calls run one after the other,
  the first from the working state of the task. When \<open>tc\<close> finds its tool, executes
  without error and returns a non-nil result: if the result is a
  \<open>map[string]interface{}\<close>, the working state after the call is the state before it
  overlaid with the entries of the result (every entry is in it, every other key is as
  before); any other result, a map of another type included, is stored as it is under
  the tool's name followed by \<open>_result\<close>. The calls after it run from that state, the
  turn writes the state they leave to the task, and \<open>Execute\<close> goes on to the next turn
  with that task.
\<close>

theorem C6_tool_result_into_state:
  assumes "turn_state lower a w0 task0 turn w task history result"
      and "turn < maxTurns a"
      and "model a w (Input task) (Files task) (tools a) history = (Inr resp, w1)"
      and "resp_ToolCalls resp = pre @ tc # post"
      and "run_tool_calls (tools a) pre [] (State task) w1 = (calls1, stepCalls1, st1, wa)"
      and "findTool (tools a) (tc_Name tc) = Some tool"
      and "ToolExecute tool wa (tc_Arguments tc) = ((res, None), wb)"
      and "res \<noteq> VNil"
  shows "\<exists>st2 calls3 stepCalls3 st3 w3 history' result'.
           (\<forall>m. res = VMap m \<longrightarrow>
              map_of st2 = map_of st1 ++ map_of (rev m)
            \<and> (distinct (map fst m) \<longrightarrow> (\<forall>(k, v) \<in> set m. map_of st2 k = Some v))
            \<and> (\<forall>k. k \<notin> fst ` set m \<longrightarrow> map_of st2 k = map_of st1 k))
         \<and> ((\<forall>m. res \<noteq> VMap m) \<longrightarrow>
              map_of st2 = (map_of st1)(ToolName tool @ ''_result'' \<mapsto> res))
         \<and> run_tool_calls (tools a) post
              (stepCalls1 @ [tc\<lparr>tc_Result := res, tc_Error := None\<rparr>]) st2 wb
             = (calls3, stepCalls3, st3, w3)
         \<and> llm_turn lower a w task history result
             = Continue w3 (task\<lparr>State := st3\<rparr>) history' result'
         \<and> turn_state lower a w0 task0 (turn + 1) w3 (task\<lparr>State := st3\<rparr>) history' result'
         \<and> LLMAgent_Execute lower a w0 task0
             = llm_loop lower a (turn + 1) w3 (task\<lparr>State := st3\<rparr>) history' result'"
proof -
  have n: "ToolName tool = tc_Name tc" using assms(6) by (rule findTool_name)
  define tc1 where "tc1 = tc\<lparr>tc_Result := res, tc_Error := None\<rparr>"
  define st2 where "st2 = (case res of VMap m \<Rightarrow> gomap_merge m st1
                    | _ \<Rightarrow> gomap_set (tc_Name tc @ ''_result'') res st1)"
  obtain calls3 stepCalls3 st3 w3 where
    p: "run_tool_calls (tools a) post (stepCalls1 @ [tc1]) st2 wb = (calls3, stepCalls3, st3, w3)"
    by (metis prod_cases4)
  have one: "run_tool_calls (tools a) (tc # post) stepCalls1 st1 wa
               = (tc1 # calls3, stepCalls3, st3, w3)"
    using assms(6,7,8) p by (simp add: Let_def tc1_def st2_def)
  have all: "run_tool_calls (tools a) (resp_ToolCalls resp) [] (State task) w1
               = (calls1 @ tc1 # calls3, stepCalls3, st3, w3)"
    unfolding assms(4) run_tool_calls_append assms(5) using one by simp
  have "requests_tools a w task history"
    by (simp add: requests_tools_def assms(3,4))
  from requests_tools_Continue[OF this] obtain w' t' h' r' where
    c: "llm_turn lower a w task history result = Continue w' t' h' r'" by blast
  from llm_turn_Continue[OF c] assms(3) all have "w' = w3" and "t' = task\<lparr>State := st3\<rparr>"
    by auto
  with c have c': "llm_turn lower a w task history result
                     = Continue w3 (task\<lparr>State := st3\<rparr>) h' r'" by simp
  have ts: "turn_state lower a w0 task0 (turn + 1) w3 (task\<lparr>State := st3\<rparr>) h' r'"
    using assms(1,2) c' by (rule turn_state.next_turn)
  have ex: "LLMAgent_Execute lower a w0 task0
              = llm_loop lower a (turn + 1) w3 (task\<lparr>State := st3\<rparr>) h' r'"
    using loop_from_turn_state[OF ts] by simp
  have m1: "map_of st2 = map_of st1 ++ map_of (rev m)" if "res = VMap m" for m
    using that by (simp add: st2_def map_of_gomap_merge)
  have m2: "\<forall>(k, v) \<in> set m. map_of st2 k = Some v" if "res = VMap m" "distinct (map fst m)" for m
    using that by (auto simp: st2_def map_of_gomap_merge map_of_rev_distinct map_add_def)
  have m3: "map_of st2 k = map_of st1 k" if "res = VMap m" "k \<notin> fst ` set m" for m k
    using that
    by (auto simp: st2_def map_of_gomap_merge map_add_def split: option.splits
          dest!: map_of_SomeD intro: rev_image_eqI)
  have m4: "map_of st2 = (map_of st1)(ToolName tool @ ''_result'' \<mapsto> res)"
    if "\<forall>m. res \<noteq> VMap m"
    using that by (cases res) (simp_all add: st2_def n map_of_gomap_set)
  from m1 m2 m3 m4 p[unfolded tc1_def] c' ts ex show ?thesis by blast
qed

theorem C6_tool_result_into_state_witness:
  "turn_state plain calc_then_answer 0 (example_task ''2+2'') 0 0 (example_task ''2+2'')
     (initial_history calc_then_answer (example_task ''2+2''))
     (llm_new_result (example_task ''2+2''))
   \<and> maxTurns calc_then_answer = 10
   \<and> model calc_then_answer 0 (Input (example_task ''2+2'')) (Files (example_task ''2+2''))
       (tools calc_then_answer) (initial_history calc_then_answer (example_task ''2+2''))
       = (call_tools [''calculator''], 1)
   \<and> findTool (tools calc_then_answer) (tc_Name calc_call) = Some calculator
   \<and> ToolExecute calculator 1 (tc_Arguments calc_call) = ((VMap [(''result'', VInt 4)], None), 1)
   \<and> (case llm_turn plain calc_then_answer 0 (example_task ''2+2'')
              (initial_history calc_then_answer (example_task ''2+2''))
              (llm_new_result (example_task ''2+2'')) of
         Continue w task history result \<Rightarrow> map_of (State task) ''result''
       | Return out \<Rightarrow> None) = Some (VInt 4)
   \<and> map_of (State (fst (snd (snd (LLMAgent_Execute plain calc_then_answer 0
                                      (example_task ''2+2''))))))
       ''result'' = Some (VInt 4)"
proof -
  define A where "A = calc_then_answer"
  define T where "T = example_task ''2+2''"
  define resp where "resp = \<lparr>resp_Content = [], resp_ToolCalls = [calc_call],
     resp_Reasoning = [], resp_Finished = False, resp_Usage = None\<rparr>"
  have h1: "turn_state plain A 0 T 0 0 T (initial_history A T) (llm_new_result T)"
    by (rule turn_state.first_turn)
  have mt: "maxTurns A = 10" by (simp add: A_def calc_then_answer_def example_defs)
  then have h2: "0 < maxTurns A" by simp
  have r: "call_tools [''calculator''] = Inr resp"
    by (simp add: call_tools_def resp_def calc_call_def)
  have h3: "model A 0 (Input T) (Files T) (tools A) (initial_history A T) = (Inr resp, 1)"
    by (simp add: A_def calc_then_answer_def example_defs resp_def calc_call_def)
  have h4: "resp_ToolCalls resp = [] @ calc_call # []" by (simp add: resp_def)
  have h5: "run_tool_calls (tools A) [] [] (State T) 1 = ([], [], [], 1)"
    by (simp add: T_def example_defs)
  have h6: "findTool (tools A) (tc_Name calc_call) = Some calculator"
    by (simp add: A_def calc_then_answer_def example_defs calc_call_def)
  have h7: "ToolExecute calculator 1 (tc_Arguments calc_call)
              = ((VMap [(''result'', VInt 4)], None), 1)"
    by (simp add: calculator_def)
  have h8: "VMap [(''result'', VInt 4)] \<noteq> VNil" by simp
  from C6_tool_result_into_state[OF h1 h2 h3 h4 h5 h6 h7 h8]
  obtain st2 calls3 stepCalls3 st3 w3 history' result' where
    x: "(\<forall>m. VMap [(''result'', VInt 4)] = VMap m \<longrightarrow>
              map_of st2 = map_of [] ++ map_of (rev m)
            \<and> (distinct (map fst m) \<longrightarrow> (\<forall>(k, v) \<in> set m. map_of st2 k = Some v))
            \<and> (\<forall>k. k \<notin> fst ` set m \<longrightarrow> map_of st2 k = map_of [] k))
         \<and> ((\<forall>m. VMap [(''result'', VInt 4)] \<noteq> VMap m) \<longrightarrow>
              map_of st2 = (map_of [])(ToolName calculator @ ''_result'' \<mapsto> VMap [(''result'', VInt 4)]))
         \<and> run_tool_calls (tools A) []
              ([] @ [calc_call\<lparr>tc_Result := VMap [(''result'', VInt 4)], tc_Error := None\<rparr>]) st2 1
             = (calls3, stepCalls3, st3, w3)
         \<and> llm_turn plain A 0 T (initial_history A T) (llm_new_result T)
             = Continue w3 (T\<lparr>State := st3\<rparr>) history' result'
         \<and> turn_state plain A 0 T (0 + 1) w3 (T\<lparr>State := st3\<rparr>) history' result'
         \<and> LLMAgent_Execute plain A 0 T
             = llm_loop plain A (0 + 1) w3 (T\<lparr>State := st3\<rparr>) history' result'"
    by (elim exE) (rule that)
  from x have m: "map_of st2 = map_of [] ++ map_of (rev [(''result'', VInt 4)])" by blast
  from x have p: "run_tool_calls (tools A) []
              ([] @ [calc_call\<lparr>tc_Result := VMap [(''result'', VInt 4)], tc_Error := None\<rparr>]) st2 1
             = (calls3, stepCalls3, st3, w3)" by blast
  from x have c: "llm_turn plain A 0 T (initial_history A T) (llm_new_result T)
             = Continue w3 (T\<lparr>State := st3\<rparr>) history' result'" by blast
  from p have "st3 = st2" by simp
  with m have "map_of st3 ''result'' = Some (VInt 4)" by simp
  with c have t: "(case llm_turn plain A 0 T (initial_history A T) (llm_new_result T) of
         Continue w task history result \<Rightarrow> map_of (State task) ''result''
       | Return out \<Rightarrow> None) = Some (VInt 4)" by simp
  have e: "map_of (State (fst (snd (snd (LLMAgent_Execute plain A 0 T))))) ''result''
             = Some (VInt 4)"
    by (simp add: A_def T_def calc_then_answer_def example_defs run_defs initial_history_def
          extractArtifacts_def aggregateMetrics_def)
  from h1 mt h3 h6 h7 t e show ?thesis
    by (simp add: A_def T_def r)
qed

text \<open>
  The claim C6 as stated fails for a key/value mapping that is not a
  \<open>map[string]interface{}\<close>: \<open>lookup\<close> returns the \<open>map[string]string\<close> that maps \<open>result\<close>
  to \<open>4\<close>, without error; its entries are not merged, the working state has no key
  \<open>result\<close> and holds the whole map under \<open>lookup_result\<close>.
\<close>

theorem C6_string_map_counterexample:
  "findTool (tools lookup_then_answer) ''lookup'' = Some lookup
   \<and> ToolExecute lookup 1 [] = ((VStringMap [(''result'', ''4'')], None), 1)
   \<and> Success (fst (LLMAgent_Execute plain lookup_then_answer 0 (example_task ''2+2'')))
   \<and> map (map tc_Error \<circ> step_ToolCalls)
       (Steps (fst (LLMAgent_Execute plain lookup_then_answer 0 (example_task ''2+2''))))
       = [[None], []]
   \<and> State (fst (snd (snd (LLMAgent_Execute plain lookup_then_answer 0 (example_task ''2+2'')))))
       = [(''lookup_result'', VStringMap [(''result'', ''4'')])]
   \<and> map_of (State (fst (snd (snd (LLMAgent_Execute plain lookup_then_answer 0
                                      (example_task ''2+2''))))))
       ''result'' = None"
  by (simp add: lookup_then_answer_def lookup_def example_defs run_defs initial_history_def
        extractArtifacts_def aggregateMetrics_def)

text \<open>
  The example of the specification, run through \<open>Execute\<close>: after the calculator turn
  and the answering turn the call has succeeded, the output is the model's answer and
  the working state of the task holds 4 under \<open>result\<close>.
\<close>

lemma calculator_example:
  "(case LLMAgent_Execute plain calc_then_answer 0 (example_task ''2+2'') of
      (r, err, task, w) \<Rightarrow>
        (Success r, Output r, err, map_of (State task) ''result'', length (Steps r)))
   = (True, VString ''The answer is 4'', None, Some (VInt 4), 2)"
  by (simp add: calc_then_answer_def example_defs run_defs initial_history_def
        extractArtifacts_def aggregateMetrics_def)

text \<open>
  C7. With \<open>Submit\<close> and the two status updates of a worker as the steps of a state
  machine that starts from \<open>NewExecutor\<close>: a step creates a job as pending, or takes
  a job from pending to running, or from running to completed when the agent returned
  no error and to failed when it returned one, and leaves the status of every other
  job. No step does anything else to a status, so a completed or failed job stays as
  it is. The job a worker takes from the channel is pending and becomes running; the
  job a worker finishes is running and becomes completed when the call of the agent
  on its task returns no error, and failed otherwise.
\<close>

theorem C7_job_status_transitions:
  assumes "reachable e" and "executor_step ev e = Some e'"
  shows "length (heap e) \<le> length (heap e')
       \<and> (\<forall>a < length (heap e').
            if a < length (heap e) then job_transition (heap e ! a) (heap e' ! a)
            else Status (heap e' ! a) = JobPending)
       \<and> (\<forall>wid. ev = EvStart wid \<longrightarrow>
              Status (heap e ! hd (jobQueue e)) = JobPending
            \<and> Status (heap e' ! hd (jobQueue e)) = JobRunning)
       \<and> (\<forall>wid a. ev = EvFinish wid \<longrightarrow> workers e ! wid = Some a \<longrightarrow>
              Status (heap e ! a) = JobRunning
            \<and> Status (heap e' ! a) =
                (if fst (snd (Execute (agent e) (world e) (job_Task (heap e ! a)))) = None
                 then JobCompleted else JobFailed))"
proof -
  from assms(1) have inv: "executor_inv e" by (rule reachable_inv)
  show ?thesis
  proof (cases ev)
    case (EvSubmit taskID input params config)
    with assms(2) have "e' = Submit taskID input params config e" by simp
    with EvSubmit show ?thesis
      by (auto simp: Submit_def Let_def nth_append job_transition_def)
  next
    case (EvSend a)
    with assms(2) have "heap e' = heap e" by (auto split: if_splits)
    with EvSend show ?thesis by (simp add: job_transition_def)
  next
    case (EvStart wid)
    with assms(2) have q: "jobQueue e \<noteq> []"
      and h: "heap e' = (heap e)[hd (jobQueue e) := executeJob_start (heap e ! hd (jobQueue e))]"
      by (auto split: if_splits simp: Let_def)
    from q have "hd (jobQueue e) \<in> set (sending e @ jobQueue e)" by simp
    with inv have "hd (jobQueue e) < length (heap e)"
      and "Status (heap e ! hd (jobQueue e)) = JobPending"
      unfolding executor_inv_def by blast+
    with EvStart show ?thesis
      by (auto simp: h nth_list_update job_transition_def executeJob_start_def)
  next
    case (EvFinish wid)
    with assms(2) obtain a job w' where wid: "wid < length (workers e)"
      and wa: "workers e ! wid = Some a"
      and f: "executeJob_finish (agent e) (world e) (heap e ! a) = (job, w')"
      and h: "heap e' = (heap e)[a := job]"
      by (auto split: if_splits option.splits prod.splits simp: Let_def)
    from inv wid wa have l: "a < length (heap e)" and s: "Status (heap e ! a) = JobRunning"
      unfolding executor_inv_def by blast+
    from f have "job = fst (executeJob_finish (agent e) (world e) (heap e ! a))" by simp
    then have j: "Status job =
        (if fst (snd (Execute (agent e) (world e) (job_Task (heap e ! a)))) = None
         then JobCompleted else JobFailed)"
      by (simp add: executeJob_finish_eq split: prod.splits)
    from executeJob_finish_Status[OF f] l s EvFinish wa j show ?thesis
      by (auto simp: h nth_list_update job_transition_def)
  qed
qed

theorem C7_job_status_transitions_witness:
  "map_option (map Status \<circ> heap)
     (run_events [] (NewExecutor (named_worker ''A'') 0 0)) = Some []
 \<and> map_option (map Status \<circ> heap)
     (run_events [EvSubmit ''id1'' ''go'' [] None] (NewExecutor (named_worker ''A'') 0 0))
     = Some [JobPending]
 \<and> map_option (map Status \<circ> heap)
     (run_events submit_start (NewExecutor (named_worker ''A'') 0 0)) = Some [JobRunning]
 \<and> map_option (map Status \<circ> heap)
     (run_events one_job (NewExecutor (named_worker ''A'') 0 0)) = Some [JobCompleted]
 \<and> map_option (map Status \<circ> heap)
     (run_events one_job (NewExecutor (failing_worker ''F'') 0 0)) = Some [JobFailed]
 \<and> (case run_events submit_start (NewExecutor (named_worker ''A'') 0 0) of
       None \<Rightarrow> False
     | Some e \<Rightarrow>
         reachable e
       \<and> (case executor_step (EvFinish 0) e of
             None \<Rightarrow> False
           | Some e' \<Rightarrow> job_transition (heap e ! 0) (heap e' ! 0)))"
proof -
  define E where "E = NewExecutor (named_worker ''A'') 0 (0::nat)"
  note defs = E_def executor_defs named_worker_def failing_worker_def failing_llm_def
    agent_defs example_defs run_defs
  have s0: "map_option (map Status \<circ> heap) (run_events [] E) = Some []"
    by (simp add: defs)
  have s1: "map_option (map Status \<circ> heap) (run_events [EvSubmit ''id1'' ''go'' [] None] E)
              = Some [JobPending]"
    by (simp add: defs)
  have s3: "map_option (map Status \<circ> heap) (run_events submit_start E) = Some [JobRunning]"
    by (simp add: defs)
  have s4: "map_option (map Status \<circ> heap) (run_events one_job E) = Some [JobCompleted]"
    by (simp add: defs)
  have s5: "map_option (map Status \<circ> heap)
              (run_events one_job (NewExecutor (failing_worker ''F'') 0 0)) = Some [JobFailed]"
    by (simp add: defs)
  from s3 obtain e where e: "run_events submit_start E = Some e"
    and he: "map Status (heap e) = [JobRunning]" by auto
  have r: "reachable e"
    using reachable.init e unfolding E_def by (rule reachable_run_events)
  from s4 obtain e' where "run_events (submit_start @ [EvFinish 0]) E = Some e'"
    and he': "map Status (heap e') = [JobCompleted]"
    by (auto simp: one_job_def)
  then have x: "executor_step (EvFinish 0) e = Some e'"
    by (simp add: run_events_snoc e)
  from he have l: "length (heap e) = 1" by (metis length_map length_Cons list.size(3) One_nat_def)
  from he' have l': "length (heap e') = 1"
    by (metis length_map length_Cons list.size(3) One_nat_def)
  from C7_job_status_transitions[OF r x] l l'
  have "job_transition (heap e ! 0) (heap e' ! 0)" by simp
  with s0 s1 s3 s4 s5 e r x show ?thesis
    by (simp add: E_def)
qed



text \<open>
  C9, as the code has it. Every step that the \<open>Execute\<close> of an \<open>LLMAgent\<close> builds
  itself has a nil \<open>StateDelta\<close>; the only other steps of its result are those of a
  sub-agent it delegated to, as the sub-agent returned them. So when the sub-agents
  record no state delta, every step of the result has a nil \<open>StateDelta\<close>; and for a
  \<open>ParallelAgent\<close> whose children are all such \<open>LLMAgent\<close>s, every child result has nil
  state deltas, the merge after the join writes nothing, and the working state of the
  parent's task after \<open>Execute\<close> is the state before the call. Every agent that the
  package builds records no state delta.
\<close>

theorem C9_no_state_delta:
  "(\<exists>own rest.
       Steps (fst (LLMAgent_Execute lower a w task)) = own @ rest
     \<and> (\<forall>s \<in> set own. AgentName s = name a \<and> StateDelta s = None)
     \<and> (rest = [] \<or> (\<exists>sub \<in> set (subAgents a). \<exists>w1 t1.
            rest = Steps (fst (Execute sub w1 t1)))))
 \<and> ((\<forall>sub \<in> set (subAgents a). no_StateDelta sub) \<longrightarrow>
       (\<forall>s \<in> set (Steps (fst (LLMAgent_Execute lower a w task))). StateDelta s = None))
 \<and> ((\<forall>c \<in> set children. \<exists>b. c = LLMAgent_as_Agent lower b
                               \<and> (\<forall>sub \<in> set (subAgents b). no_StateDelta sub)) \<longrightarrow>
       (\<forall>res \<in> set (fst (par_run children w task)).
          \<forall>s \<in> set (Steps (fst res)). StateDelta s = None)
     \<and> State (fst (snd (snd (ParallelAgent_Execute children w task)))) = State task)
 \<and> no_StateDelta (as_Agent lower ag)"
proof (intro conjI impI)
  obtain r e t w' where x: "LLMAgent_Execute lower a w task = (r, e, t, w')"
    by (metis prod_cases4)
  from llm_loop_own_steps[OF x[unfolded LLMAgent_Execute_def]] obtain own rest where
    "Steps r = Steps (llm_new_result task) @ own @ rest"
    "\<forall>s \<in> set own. AgentName s = name a \<and> StateDelta s = None"
    "rest = [] \<or> (\<exists>sub \<in> set (subAgents a). \<exists>w1 t1. rest = Steps (fst (Execute sub w1 t1)))"
    by blast
  then have "Steps (fst (LLMAgent_Execute lower a w task)) = own @ rest
     \<and> (\<forall>s \<in> set own. AgentName s = name a \<and> StateDelta s = None)
     \<and> (rest = [] \<or> (\<exists>sub \<in> set (subAgents a). \<exists>w1 t1.
            rest = Steps (fst (Execute sub w1 t1))))"
    using x by (simp add: llm_new_result_def)
  then show "\<exists>own rest.
       Steps (fst (LLMAgent_Execute lower a w task)) = own @ rest
     \<and> (\<forall>s \<in> set own. AgentName s = name a \<and> StateDelta s = None)
     \<and> (rest = [] \<or> (\<exists>sub \<in> set (subAgents a). \<exists>w1 t1.
            rest = Steps (fst (Execute sub w1 t1))))" by blast
next
  assume "\<forall>sub \<in> set (subAgents a). no_StateDelta sub"
  then have "no_StateDelta (LLMAgent_as_Agent lower a)" by (rule LLMAgent_no_StateDelta)
  then show "\<forall>s \<in> set (Steps (fst (LLMAgent_Execute lower a w task))). StateDelta s = None"
    unfolding no_StateDelta_def by (simp add: LLMAgent_as_Agent_def)
next
  assume h: "\<forall>c \<in> set children. \<exists>b. c = LLMAgent_as_Agent lower b
                               \<and> (\<forall>sub \<in> set (subAgents b). no_StateDelta sub)"
  have c: "\<forall>ag \<in> set children. no_StateDelta ag"
  proof
    fix ag assume "ag \<in> set children"
    with h obtain b where "ag = LLMAgent_as_Agent lower b"
      "\<forall>sub \<in> set (subAgents b). no_StateDelta sub" by blast
    then show "no_StateDelta ag" by (simp add: LLMAgent_no_StateDelta)
  qed
  show "\<forall>res \<in> set (fst (par_run children w task)).
          \<forall>s \<in> set (Steps (fst res)). StateDelta s = None"
    using par_run_StateDelta[OF c, of w task] by (metis prod.collapse)
  obtain r e t w' where x: "ParallelAgent_Execute children w task = (r, e, t, w')"
    by (metis prod_cases4)
  from parallel_StateDelta[OF c x] x
  show "State (fst (snd (snd (ParallelAgent_Execute children w task)))) = State task"
    by simp
next
  show "no_StateDelta (as_Agent lower ag)" by (rule package_no_StateDelta)
qed

theorem C9_no_state_delta_witness:
  "subAgents (llm_agent ''c1'' (\<lambda>k. if even k then call_tools [''calculator''] else say ''ok'')
                [calculator] [] 3) = []
 \<and> map_of (State (fst (snd (snd (LLMAgent_Execute plain
       (llm_agent ''c1'' (\<lambda>k. if even k then call_tools [''calculator''] else say ''ok'')
          [calculator] [] 3) 0 task_with_x))))) ''result'' = Some (VInt 4)
 \<and> map (\<lambda>s. (Action s, StateDelta s))
       (Steps (fst (LLMAgent_Execute plain
          (llm_agent ''c1'' (\<lambda>k. if even k then call_tools [''calculator''] else say ''ok'')
             [calculator] [] 3) 0 task_with_x)))
     = [(''tool_execution'', None), (''reasoning'', None)]
 \<and> State task_with_x = [(''x'', VInt 1)]
 \<and> State (fst (snd (snd (ParallelAgent_Execute
       [LLMAgent_as_Agent plain
          (llm_agent ''c1'' (\<lambda>k. if even k then call_tools [''calculator''] else say ''ok'')
             [calculator] [] 3),
        LLMAgent_as_Agent plain
          (llm_agent ''c2'' (\<lambda>k. if even k then call_tools [''calculator''] else say ''ok'')
             [calculator] [] 3)] 0 task_with_x)))) = [(''x'', VInt 1)]"
proof -
  define c1 where "c1 = llm_agent ''c1''
     (\<lambda>k. if even k then call_tools [''calculator''] else say ''ok'') [calculator] [] 3"
  define c2 where "c2 = llm_agent ''c2''
     (\<lambda>k. if even k then call_tools [''calculator''] else say ''ok'') [calculator] [] 3"
  have s1: "subAgents c1 = []" and s2: "subAgents c2 = []"
    by (simp_all add: c1_def c2_def example_defs)
  have h1: "\<forall>sub \<in> set (subAgents c1). no_StateDelta sub" by (simp add: s1)
  have h2: "\<forall>c \<in> set [LLMAgent_as_Agent plain c1, LLMAgent_as_Agent plain c2].
              \<exists>b. c = LLMAgent_as_Agent plain b \<and> (\<forall>sub \<in> set (subAgents b). no_StateDelta sub)"
    using s1 s2 by auto
  note th = C9_no_state_delta[where lower = plain and a = c1 and w = 0 and task = task_with_x
      and children = "[LLMAgent_as_Agent plain c1, LLMAgent_as_Agent plain c2]"]
  from th h1 have d0: "\<forall>s \<in> set (Steps (fst (LLMAgent_Execute plain c1 0 task_with_x))).
                         StateDelta s = None" by blast
  from th h2 have p: "State (fst (snd (snd (ParallelAgent_Execute
       [LLMAgent_as_Agent plain c1, LLMAgent_as_Agent plain c2] 0 task_with_x))))
         = State task_with_x" by blast
  have c: "map_of (State (fst (snd (snd (LLMAgent_Execute plain c1 0 task_with_x)))))
             ''result'' = Some (VInt 4)"
    by (simp add: c1_def task_with_x_def agent_defs example_defs run_defs)
  have s: "State task_with_x = [(''x'', VInt 1)]" by (simp add: task_with_x_def)
  have d: "map (\<lambda>s. (Action s, StateDelta s)) (Steps (fst (LLMAgent_Execute plain c1 0 task_with_x)))
     = [(''tool_execution'', None), (''reasoning'', None)]"
    by (simp add: c1_def task_with_x_def agent_defs example_defs run_defs)
  from s1 c d s p show ?thesis
    unfolding c1_def c2_def by simp
qed

text \<open>
  The claim C9 as stated fails for an \<open>LLMAgent\<close> with a sub-agent from outside the
  package that records a state delta: the result of the \<open>LLMAgent\<close> holds the
  sub-agent's step with its \<open>StateDelta\<close>, and a \<open>ParallelAgent\<close> whose only child is
  that \<open>LLMAgent\<close> merges it, so the working state of the parent's task holds 99 under
  \<open>x\<close> after the call and 1 before.
\<close>

theorem C9_foreign_sub_agent_counterexample:
  "subAgents delegating_child = [delta_agent]
 \<and> map (\<lambda>s. (AgentName s, StateDelta s))
       (Steps (fst (LLMAgent_Execute plain delegating_child 0 task_with_x)))
     = [(''child'', None), (''custom'', Some [(''x'', VInt 99)])]
 \<and> State task_with_x = [(''x'', VInt 1)]
 \<and> State (fst (snd (snd (ParallelAgent_Execute [LLMAgent_as_Agent plain delegating_child] 0
                            task_with_x)))) = [(''x'', VInt 99)]"
  by (simp add: delegating_child_def delta_agent_def task_with_x_def agent_defs example_defs
        run_defs ToLower_def lower_char_def)

text \<open>
  C10, as the code has it. After a successful run of a \<open>PipelineAgent\<close> over the
  stages \<open>pre\<close>, \<open>y\<close>, \<open>z\<close>, the caller's task is the task as the last stage \<open>z\<close> left
  it, and \<open>z\<close> was called with the input text set to the coerced output of the
  second-to-last stage \<open>y\<close>: the pipeline writes \<open>task.Input\<close> before every stage and
  never writes the original text back. So the input text after the call is the
  coerced output of \<open>y\<close> whenever \<open>z\<close> keeps the input text it is given.
\<close>

theorem C10_pipeline_leaves_input:
  assumes "PipelineAgent_Execute (pre @ [y, z]) w task = (r, None, task', w')"
  shows "\<exists>r1 t1 w1 ry ty wy rz.
           PipelineAgent_Execute pre w task = (r1, None, t1, w1)
         \<and> Execute y w1 (t1\<lparr>Input := coerce_output (Output r1)\<rparr>) = (ry, None, ty, wy)
         \<and> Execute z wy (ty\<lparr>Input := coerce_output (Output ry)\<rparr>) = (rz, None, task', w')
         \<and> (keeps_Input z \<longrightarrow> Input task' = coerce_output (Output ry))"
proof -
  obtain r1 e1 t1 w1 where p: "pipe_loop pre (Input task) w task (new_result task) = (r1, e1, t1, w1)"
    by (metis prod_cases4)
  have e1: "e1 = None"
    using assms p by (cases e1) (simp_all add: PipelineAgent_Execute_def pipe_loop_append)
  define r1' where "r1' = r1\<lparr>Output := Output (new_result task), Success := Success (new_result task)\<rparr>"
  have yz: "pipe_loop [y, z] (coerce_output (Output r1)) w1 t1 r1' = (r, None, task', w')"
    using assms p e1 by (simp add: PipelineAgent_Execute_def pipe_loop_append r1'_def)
  obtain ry ey ty wy where y: "Execute y w1 (t1\<lparr>Input := coerce_output (Output r1)\<rparr>) = (ry, ey, ty, wy)"
    by (metis prod_cases4)
  have ey: "ey = None" using yz y by (cases ey) simp_all
  obtain rz ez tz wz where z: "Execute z wy (ty\<lparr>Input := coerce_output (Output ry)\<rparr>) = (rz, ez, tz, wz)"
    by (metis prod_cases4)
  have ez: "ez = None" using yz y ey z by (cases ez) simp_all
  have t: "tz = task'" "wz = w'" using yz y ey z ez by simp_all
  have k: "keeps_Input z \<longrightarrow> Input task' = coerce_output (Output ry)"
  proof
    assume "keeps_Input z"
    then have "Input (fst (snd (snd (Execute z wy (ty\<lparr>Input := coerce_output (Output ry)\<rparr>)))))
                 = Input (ty\<lparr>Input := coerce_output (Output ry)\<rparr>)"
      unfolding keeps_Input_def by blast
    then show "Input task' = coerce_output (Output ry)" by (simp add: z t)
  qed
  from p e1 y ey z ez t k show ?thesis
    by (auto simp: PipelineAgent_Execute_def)
qed

theorem C10_pipeline_leaves_input_witness:
  "fst (snd (PipelineAgent_Execute ([] @ [named_worker ''A'', named_worker ''B'']) 0
              (example_task ''go''))) = None
 \<and> keeps_Input (named_worker ''B'')
 \<and> Output (fst (Execute (named_worker ''A'') 0 (example_task ''go''))) = VString ''out0''
 \<and> Input (fst (snd (snd (PipelineAgent_Execute ([] @ [named_worker ''A'', named_worker ''B'']) 0
                            (example_task ''go''))))) = ''out0''"
proof -
  define T where "T = example_task ''go''"
  define A where "A = named_worker ''A''"
  define B where "B = named_worker ''B''"
  have ev: "fst (snd (PipelineAgent_Execute ([] @ [A, B]) 0 T)) = None"
    by (simp add: A_def B_def T_def named_worker_def agent_defs example_defs run_defs)
  then obtain r t w' where x: "PipelineAgent_Execute ([] @ [A, B]) 0 T = (r, None, t, w')"
    by (metis prod.collapse)
  have k: "keeps_Input B"
    unfolding B_def named_worker_def
    by (rule LLMAgent_keeps_Input) (simp add: example_defs)
  have p: "PipelineAgent_Execute [] 0 T
             = ((new_result T)\<lparr>Output := VString ''go'', Success := True\<rparr>, None, T, 0)"
    by (simp add: PipelineAgent_Execute_def T_def example_defs)
  have a: "Output (fst (Execute A 0 T)) = VString ''out0''"
    by (simp add: A_def T_def named_worker_def agent_defs example_defs run_defs)
  from C10_pipeline_leaves_input[OF x] k obtain r1 t1 w1 ry ty wy where
    q: "PipelineAgent_Execute [] 0 T = (r1, None, t1, w1)"
    and y: "Execute A w1 (t1\<lparr>Input := coerce_output (Output r1)\<rparr>) = (ry, None, ty, wy)"
    and i: "Input t = coerce_output (Output ry)"
    by blast
  from q[unfolded p] have "r1 = (new_result T)\<lparr>Output := VString ''go'', Success := True\<rparr>"
    and "t1 = T" and "w1 = 0" by auto
  with y have "Execute A 0 T = (ry, None, ty, wy)"
    by (simp add: coerce_output_def T_def example_defs)
  with a i have "Input t = ''out0''" by (simp add: coerce_output_def)
  with ev k a x show ?thesis by (simp add: A_def B_def T_def)
qed

text \<open>
  The claim C10 as stated fails when the last stage writes the input text itself,
  as a nested \<open>PipelineAgent\<close> does: the stages \<open>A\<close> and the pipeline of \<open>B\<close> and \<open>C\<close>
  succeed with the coerced outputs \<open>out0\<close> and \<open>out2\<close>, and the caller's task is left
  with the input text \<open>out1\<close>, the output of \<open>B\<close>, not with \<open>out0\<close>.
\<close>

theorem C10_nested_pipeline_counterexample:
  "fst (snd (PipelineAgent_Execute
               [named_worker ''A'',
                NewPipelineAgent ''inner'' [named_worker ''B'', named_worker ''C'']] 0
               (example_task ''go''))) = None
 \<and> map (coerce_output \<circ> Output \<circ> fst)
       (pipe_outcomes
          [named_worker ''A'',
           NewPipelineAgent ''inner'' [named_worker ''B'', named_worker ''C'']]
          (Input (example_task ''go'')) 0 (example_task ''go''))
     = [''out0'', ''out2'']
 \<and> Input (fst (snd (snd (PipelineAgent_Execute
               [named_worker ''A'',
                NewPipelineAgent ''inner'' [named_worker ''B'', named_worker ''C'']] 0
               (example_task ''go''))))) = ''out1''"
  by (simp add: named_worker_def agent_defs example_defs run_defs)

end
